theory Spec2Isabelle
  imports Complex_Main
begin

section \<open>Arrays of floats\<close>

text \<open>
  The numpy arrays of \<^verbatim>\<open>plot_utilities.py\<close> and \<^verbatim>\<open>mars.py\<close> hold float64 values.
  They are modelled as lists of reals: rounding, infinities and NaN are not modelled, so
  every statement below is about inputs on which numpy produces no NaN (in particular
  \<open>np.sqrt\<close> is only read at non-negative arguments in the theorems).  A one-dimensional
  array, or an \<open>(n, 1)\<close> column that the source squeezes, is the list of its entries.

  Every exception is a value: \<open>ValueError\<close> and \<open>IndexError\<close> are numpy's, the other four
  are the conditions of section 7 of the specification (configuration error, degenerate
  safe region, empty frontier, invalid query).
\<close>

datatype error =
    ValueError | IndexError
  | ConfigurationError | NoSafeRegion | EmptyFrontier | NoSuchTransition

text \<open>
  An arithmetic operator on two arrays: equal lengths combine entry by entry, an array of
  one entry is broadcast against the other, anything else raises \<open>ValueError\<close>.
\<close>

definition broadcast :: "(real \<Rightarrow> real \<Rightarrow> real) \<Rightarrow> real list \<Rightarrow> real list \<Rightarrow> error + real list" where
  "broadcast f xs ys =
     (if length xs = length ys then Inr (map2 f xs ys)
      else if length xs = 1 then Inr (map (f (hd xs)) ys)
      else if length ys = 1 then Inr (map (\<lambda>x. f x (hd ys)) xs)
      else Inl ValueError)"

text \<open>
  \<^verbatim>\<open>d[mask(v)] = v[mask(v)]\<close> for a boolean mask computed entry by entry from \<open>v\<close>: where
  the mask holds the entry of \<open>v\<close> is written, elsewhere \<open>d\<close> keeps its entry.  An empty
  mask selects nothing, whatever the size of \<open>d\<close>; any other mask must have the shape of
  \<open>d\<close> (numpy raises \<open>IndexError\<close> otherwise).
\<close>

definition assign_where :: "(real \<Rightarrow> bool) \<Rightarrow> real list \<Rightarrow> real list \<Rightarrow> error + real list" where
  "assign_where p d v =
     (if length v = length d then Inr (map2 (\<lambda>x y. if p y then y else x) d v)
      else if v = [] then Inr d
      else Inl IndexError)"

section \<open>\<^verbatim>\<open>plot_dist_from_C\<close> (examples/mars/plot_utilities.py)\<close>

text \<open>
  Lines 179 to 181: \<^verbatim>\<open>sigma = beta * np.sqrt(var)\<close>, \<^verbatim>\<open>l = np.squeeze(mu - sigma)\<close>,
  \<^verbatim>\<open>u = np.squeeze(mu + sigma)\<close>.
\<close>

definition confidence_bounds :: "real list \<Rightarrow> real list \<Rightarrow> real \<Rightarrow> error + (real list \<times> real list)" where
  "confidence_bounds mu var beta =
     (let sigma = map (\<lambda>v. beta * sqrt v) var in
      case broadcast (\<lambda>a b. a - b) mu sigma of
        Inl e \<Rightarrow> Inl e
      | Inr l \<Rightarrow>
         (case broadcast (\<lambda>a b. a + b) mu sigma of
            Inl e \<Rightarrow> Inl e
          | Inr u \<Rightarrow> Inr (l, u)))"

text \<open>
  Lines 184 to 192: the array starts as zeros of the size of \<open>altitudes\<close>; the entries
  above \<open>u\<close> are written first, the entries below \<open>l\<close> second (so the second assignment
  wins where both masks hold).
\<close>

definition dist_from_confidence_interval ::
  "real list \<Rightarrow> real list \<Rightarrow> real \<Rightarrow> real list \<Rightarrow> error + real list" where
  "dist_from_confidence_interval mu var beta altitudes =
     (case confidence_bounds mu var beta of
        Inl e \<Rightarrow> Inl e
      | Inr (l, u) \<Rightarrow>
         (let d0 = replicate (length altitudes) 0 in
          case broadcast (\<lambda>a b. a - b) altitudes u of
            Inl e \<Rightarrow> Inl e
          | Inr diff_u \<Rightarrow>
             (case assign_where (\<lambda>x. x > 0) d0 diff_u of
                Inl e \<Rightarrow> Inl e
              | Inr d1 \<Rightarrow>
                 (case broadcast (\<lambda>a b. a - b) altitudes l of
                    Inl e \<Rightarrow> Inl e
                  | Inr diff_l \<Rightarrow> assign_where (\<lambda>x. x < 0) d1 diff_l))))"

text \<open>
  Lines 195 to 203: the colour limits and the reshaped image handed to \<open>imshow\<close>.
  \<open>np.max\<close> and \<open>np.min\<close> raise \<open>ValueError\<close> on an empty array, \<open>np.reshape\<close> raises it
  when the shape does not hold the entries.  The result is what the plot is drawn from:
  the rows of the reshaped array (before the transposition) and the symmetric limit.
\<close>

fun reshape :: "real list \<Rightarrow> nat \<Rightarrow> nat \<Rightarrow> real list list" where
  "reshape xs 0 c = []"
| "reshape xs (Suc r) c = take c xs # reshape (drop c xs) r c"

definition plot_dist_from_C ::
  "real list \<Rightarrow> real list \<Rightarrow> real \<Rightarrow> real list \<Rightarrow> nat \<times> nat \<Rightarrow> error + (real list list \<times> real)" where
  "plot_dist_from_C mu var beta altitudes world_shape =
     (case dist_from_confidence_interval mu var beta altitudes of
        Inl e \<Rightarrow> Inl e
      | Inr d \<Rightarrow>
         (if d = [] then Inl ValueError
          else let max_value = Max (set d);
                   min_value = Min (set d);
                   limit = max max_value \<bar>min_value\<bar>
               in if fst world_shape * snd world_shape \<noteq> length d then Inl ValueError
                  else Inr (reshape d (fst world_shape) (snd world_shape), limit)))"


section \<open>Boolean arrays\<close>

text \<open>
  The sets \<open>S\<close>, \<open>S_hat\<close> and \<open>G\<close> of \<^verbatim>\<open>mars.py\<close> are boolean arrays with one row per node
  and one column per action (\<^verbatim>\<open>np.zeros((np.prod(world_shape), 5), dtype=bool)\<close>): a list of
  rows.  \<open>np.sum\<close> of a boolean array counts its true entries; \<open>np.logical_not\<close> negates
  entry by entry; \<open>np.logical_and\<close> combines two arrays of one shape entry by entry and
  raises \<open>ValueError\<close> when the shapes differ (shapes that numpy could broadcast are not
  modelled: the arrays compared in \<^verbatim>\<open>mars.py\<close> are the sets of one grid).
\<close>

type_synonym bool_array = "bool list list"

definition shape_of :: "bool_array \<Rightarrow> nat list" where
  "shape_of A = map length A"

definition np_sum :: "bool_array \<Rightarrow> int" where
  "np_sum A = int (sum_list (map (\<lambda>row. length (filter (\<lambda>b. b) row)) A))"

definition np_any :: "bool_array \<Rightarrow> bool" where
  "np_any A = (\<exists>row \<in> set A. \<exists>b \<in> set row. b)"

definition logical_not :: "bool_array \<Rightarrow> bool_array" where
  "logical_not A = map (map Not) A"

definition logical_and :: "bool_array \<Rightarrow> bool_array \<Rightarrow> error + bool_array" where
  "logical_and A B =
     (if shape_of A = shape_of B then Inr (map2 (map2 (\<and>)) A B) else Inl ValueError)"

text \<open>The entry of a boolean array, false outside the array.\<close>

definition entry :: "bool_array \<Rightarrow> nat \<Rightarrow> nat \<Rightarrow> bool" where
  "entry A s a = (s < length A \<and> a < length (A ! s) \<and> A ! s ! a)"

text \<open>The transitions a boolean array marks, in the order of node, then action.\<close>

definition marked :: "bool_array \<Rightarrow> (nat \<times> nat) list" where
  "marked A = concat (map (\<lambda>s. map (\<lambda>a. (s, a)) (filter (\<lambda>a. A ! s ! a) [0..<length (A ! s)]))
                          [0..<length A])"

section \<open>The Grid Graph (specification, sections 3 and 4.1)\<close>

text \<open>
  Modelled from the spec: the module \<^verbatim>\<open>grid_world\<close> that \<^verbatim>\<open>mars.py\<close> imports (the class
  \<open>GridWorld\<close> with \<open>update_sets\<close>, \<open>target_sample\<close> and \<open>add_observation\<close>, and the
  functions \<open>compute_true_safe_set\<close> and \<open>compute_true_S_hat\<close>) is not among the
  sources.  The definitions of this section and of the next four follow sections 3, 4
  and 7 of the specification.

  A node is an index below \<open>rows * cols\<close>, numbered row by row.  An action is an index
  below 5: STAY is 0 (the column \<^verbatim>\<open>S0[:, 0]\<close> of \<^verbatim>\<open>mars.py\<close>), the four directions are 1 to
  4.  The specification fixes the set of actions and that a direction has no neighbour at
  the border; which index points which way is a choice made here, and no theorem depends
  on it.
\<close>

definition STAY :: nat where
  "STAY = 0"

definition neighbor :: "nat \<times> nat \<Rightarrow> nat \<Rightarrow> nat \<Rightarrow> nat option" where
  "neighbor shape s a =
     (let rows = fst shape; cols = snd shape in
      if rows * cols \<le> s then None
      else if a = STAY then Some s
      else if a = 1 then (if s div cols = 0 then None else Some (s - cols))
      else if a = 2 then (if Suc (s div cols) = rows then None else Some (s + cols))
      else if a = 3 then (if s mod cols = 0 then None else Some (s - 1))
      else if a = 4 then (if Suc (s mod cols) = cols then None else Some (s + 1))
      else None)"

text \<open>All transitions of the grid, in the order of node, then action.\<close>

definition transitions :: "nat \<times> nat \<Rightarrow> (nat \<times> nat) list" where
  "transitions shape =
     concat (map (\<lambda>s. map (\<lambda>a. (s, a)) (filter (\<lambda>a. neighbor shape s a \<noteq> None) [0..<5]))
                 [0..<fst shape * snd shape])"

text \<open>The boolean array of a set of transitions: one row per node, five columns.\<close>

definition array_of :: "nat \<times> nat \<Rightarrow> (nat \<times> nat \<Rightarrow> bool) \<Rightarrow> bool_array" where
  "array_of shape P = map (\<lambda>s. map (\<lambda>a. P (s, a)) [0..<5]) [0..<fst shape * snd shape]"

text \<open>
  The coordinates of the nodes: \<open>(row * step_row, col * step_col)\<close> (in \<^verbatim>\<open>mars.py\<close>, lines 52
  to 56, \<open>meshgrid\<close> with \<open>indexing="ij"\<close> flattened row by row).
\<close>

definition grid_coord :: "nat \<times> nat \<Rightarrow> real \<times> real \<Rightarrow> (real \<times> real) list" where
  "grid_coord shape step =
     map (\<lambda>s. (real (s div snd shape) * fst step, real (s mod snd shape) * snd step))
         [0..<fst shape * snd shape]"

section \<open>The Belief Model and the other collaborators (specification, section 6)\<close>

text \<open>
  The Gaussian process is GPy's.  Its training data are the rows of \<open>X\<close> and \<open>Y\<close>; a row
  of \<open>X\<close> is either a coordinate (the initial sample of \<^verbatim>\<open>mars.py\<close>, lines 84 to 86) or the
  queried edge of an observation (section 3 of the specification: queried node, queried
  action, resulting neighbour), and the row of \<open>Y\<close> is the measured value.
\<close>

datatype gp_input = Coordinate real real | Edge nat nat nat

record GP =
  X :: "gp_input list"
  Y :: "real list"
  lengthscale :: real
  kernel_variance :: real
  noise_variance :: real

text \<open>
  \<open>set_XY\<close> of GPy replaces the training data.  GPy raises an exception on empty training
  data and on \<open>X\<close> and \<open>Y\<close> of different numbers of rows; this function is total, and the
  statements below read it where \<^verbatim>\<open>mars.py\<close> calls it: at line 110, on the ten rows that
  remain of eleven.
\<close>

definition set_XY :: "GP \<Rightarrow> gp_input list \<Rightarrow> real list \<Rightarrow> GP" where
  "set_XY g newX newY = g\<lparr>X := newX, Y := newY\<rparr>"

record GridWorld =
  gp :: GP
  world_shape :: "nat \<times> nat"
  step_size :: "real \<times> real"
  beta :: real
  altitudes :: "real list"
  h :: real
  S :: bool_array
  S_hat :: bool_array
  S_hat0 :: bool_array
  G :: bool_array
  L :: real

text \<open>
  What the specification leaves to collaborators is a parameter of the model:
  \<^item> \<open>predict\<close>: the posterior mean and variance of the safety feature of a transition,
    from the Gaussian process (its training data and hyperparameters);
  \<^item> \<open>sensor\<close>: the noisy measurement of the safety feature of an edge; it may depend on
    the whole state of the grid world, which stands for the noise of that query;
  \<^item> \<open>feature\<close>: the exact safety feature of an edge, from the true altitudes, the
    source node and the target node (the specification leaves its sign convention open);
  \<^item> \<open>geometric_neighbors\<close>: the transitions near a transition, each with its distance
    (the specification does not say which transitions are near);
  \<^item> \<open>expanders\<close>: the frontier \<open>G\<close>, from the belief and the sets \<open>S\<close> and \<open>S_hat\<close>
    just recomputed.  The specification describes it as a subset of \<open>S\<close> without \<open>S_hat\<close>
    "or of the boundary of \<open>S_hat\<close>", selected by an optimistic evaluation that it does
    not define; this does not determine one set, so every such function is admitted;
  \<^item> \<open>draws\<close>: the stream of random numbers behind \<open>np.random.choice\<close>.
\<close>

record env =
  predict :: "GP \<Rightarrow> nat \<times> nat \<Rightarrow> real \<times> real"
  sensor :: "GridWorld \<Rightarrow> nat \<Rightarrow> nat \<Rightarrow> nat \<Rightarrow> real"
  feature :: "real list \<Rightarrow> nat \<Rightarrow> nat \<Rightarrow> real"
  geometric_neighbors :: "nat \<times> nat \<Rightarrow> ((nat \<times> nat) \<times> real) list"
  expanders :: "GP \<Rightarrow> bool_array \<Rightarrow> bool_array \<Rightarrow> nat \<times> nat \<Rightarrow> bool"
  draws :: "nat \<Rightarrow> nat"

section \<open>The Safety Classifier (specification, section 4.2)\<close>

datatype SafetyLabel = UNKNOWN | SAFE | UNSAFE

definition confidence_interval :: "real \<Rightarrow> real \<Rightarrow> real \<Rightarrow> real \<times> real" where
  "confidence_interval mean var b = (mean - b * sqrt var, mean + b * sqrt var)"

text \<open>
  The safe range.  Section 9 of the specification leaves open whether the threshold
  bounds the feature on both sides or on one; \<^verbatim>\<open>mars.py\<close> passes the negative bound
  \<open>- tan(pi / 9) * step\<close>, so the range taken here is one-sided: the feature is safe when it
  is at least the threshold.  An interval is SAFE when it lies inside the range, UNSAFE
  when it lies outside, UNKNOWN otherwise.
\<close>

definition classify_interval :: "real \<times> real \<Rightarrow> real \<Rightarrow> SafetyLabel" where
  "classify_interval I t =
     (if t \<le> fst I then SAFE else if snd I < t then UNSAFE else UNKNOWN)"

text \<open>A negative variance is treated as UNKNOWN (section 7, numerical instability).\<close>

definition classify :: "real \<Rightarrow> real \<Rightarrow> real \<Rightarrow> real \<Rightarrow> SafetyLabel" where
  "classify mean var b t =
     (if var < 0 then UNKNOWN else classify_interval (confidence_interval mean var b) t)"

definition propagate :: "real \<times> real \<Rightarrow> real \<Rightarrow> real \<Rightarrow> real \<times> real" where
  "propagate I d lip = (fst I - lip * d, snd I + lip * d)"


section \<open>The Safe-Set Engine (specification, section 4.3)\<close>

text \<open>
  Step 1, the certificates.  A transition is certified with the confidence interval of
  its own posterior when \<open>classify\<close> labels it SAFE, and with the interval of a certified
  transition near it, extended by \<open>L * distance\<close>, when that interval is classified SAFE
  again; the second rule cascades, which is the fixed point of the specification.
\<close>

inductive certified :: "env \<Rightarrow> GridWorld \<Rightarrow> nat \<times> nat \<Rightarrow> real \<times> real \<Rightarrow> bool"
  for e :: env and x :: GridWorld
where
  direct:
    "t \<in> set (transitions (world_shape x)) \<Longrightarrow> predict e (gp x) t = (mean, var)
     \<Longrightarrow> classify mean var (beta x) (h x) = SAFE
     \<Longrightarrow> certified e x t (confidence_interval mean var (beta x))"
| propagated:
    "certified e x t I \<Longrightarrow> (t', d) \<in> set (geometric_neighbors e t)
     \<Longrightarrow> t' \<in> set (transitions (world_shape x))
     \<Longrightarrow> classify_interval (propagate I d (L x)) (h x) = SAFE
     \<Longrightarrow> certified e x t' (propagate I d (L x))"

text \<open>Step 2, the safe set: STAY at every node, and every certified transition.\<close>

inductive in_S :: "env \<Rightarrow> GridWorld \<Rightarrow> nat \<times> nat \<Rightarrow> bool"
  for e :: env and x :: GridWorld
where
  stay: "(s, STAY) \<in> set (transitions (world_shape x)) \<Longrightarrow> in_S e x (s, STAY)"
| by_certificate: "certified e x t I \<Longrightarrow> in_S e x t"

text \<open>
  Step 3, the closure.  The seed region is the set of nodes with a seed transition.  A
  node is returnable when a path of safe transitions leads from it back to the seed
  region.  The closure starts from the seed transitions and adds a safe transition whose
  source is a seed node or the target of a transition already added, and whose target is
  returnable.
\<close>

definition seed_nodes :: "bool_array \<Rightarrow> nat list" where
  "seed_nodes A = filter (\<lambda>s. \<exists>b \<in> set (A ! s). b) [0..<length A]"

inductive returnable :: "(nat \<times> nat \<Rightarrow> bool) \<Rightarrow> nat \<times> nat \<Rightarrow> nat list \<Rightarrow> nat \<Rightarrow> bool"
  for safe :: "nat \<times> nat \<Rightarrow> bool" and shape :: "nat \<times> nat" and seeds :: "nat list"
where
  at_seed: "s \<in> set seeds \<Longrightarrow> returnable safe shape seeds s"
| step_back: "safe (s, a) \<Longrightarrow> neighbor shape s a = Some s' \<Longrightarrow> returnable safe shape seeds s'
         \<Longrightarrow> returnable safe shape seeds s"

inductive closure ::
  "(nat \<times> nat \<Rightarrow> bool) \<Rightarrow> nat \<times> nat \<Rightarrow> (nat \<times> nat \<Rightarrow> bool) \<Rightarrow> nat list \<Rightarrow> nat \<times> nat \<Rightarrow> bool"
  for safe :: "nat \<times> nat \<Rightarrow> bool" and shape :: "nat \<times> nat"
    and seed :: "nat \<times> nat \<Rightarrow> bool" and seeds :: "nat list"
where
  initial: "seed t \<Longrightarrow> closure safe shape seed seeds t"
| from_seed:
    "safe (s, a) \<Longrightarrow> neighbor shape s a = Some s' \<Longrightarrow> s \<in> set seeds
     \<Longrightarrow> returnable safe shape seeds s' \<Longrightarrow> closure safe shape seed seeds (s, a)"
| from_reached:
    "safe (s, a) \<Longrightarrow> neighbor shape s a = Some s' \<Longrightarrow> closure safe shape seed seeds (p, b)
     \<Longrightarrow> neighbor shape p b = Some s
     \<Longrightarrow> returnable safe shape seeds s' \<Longrightarrow> closure safe shape seed seeds (s, a)"

definition in_S_hat :: "env \<Rightarrow> GridWorld \<Rightarrow> nat \<times> nat \<Rightarrow> bool" where
  "in_S_hat e x =
     closure (in_S e x) (world_shape x) (\<lambda>t. entry (S_hat0 x) (fst t) (snd t))
       (seed_nodes (S_hat0 x))"

text \<open>
  Step 4, the expanders, are the collaborator \<open>expanders\<close> applied to the belief and to
  the two sets just computed.
\<close>

section \<open>The class \<open>GridWorld\<close> (specification, sections 4.3 to 4.5 and 7)\<close>

text \<open>
  The constructor \<^verbatim>\<open>GridWorld(gp, world_shape, step_size, beta, altitudes, h, S0, S_hat0, L)\<close>
  rejects an invalid configuration: a grid without nodes, a non-positive step size, a
  non-positive \<open>beta\<close> or \<open>L\<close>.  The object owns its arrays; \<open>G\<close> is empty until the first
  recomputation.  Its attribute \<open>coord\<close> holds the coordinates of its nodes.
\<close>

definition GridWorld_init ::
  "GP \<Rightarrow> nat \<times> nat \<Rightarrow> real \<times> real \<Rightarrow> real \<Rightarrow> real list \<Rightarrow> real \<Rightarrow> bool_array \<Rightarrow> bool_array
     \<Rightarrow> real \<Rightarrow> error + GridWorld" where
  "GridWorld_init g shape step b alts t s0 s_hat0 lip =
     (if fst shape = 0 \<or> snd shape = 0 \<or> fst step \<le> 0 \<or> snd step \<le> 0 \<or> b \<le> 0 \<or> lip \<le> 0
      then Inl ConfigurationError
      else Inr \<lparr>gp = g, world_shape = shape, step_size = step, beta = b, altitudes = alts,
                h = t, S = s0, S_hat = s_hat0, S_hat0 = s_hat0,
                G = array_of shape (\<lambda>t. False), L = lip\<rparr>)"

definition coord_of :: "GridWorld \<Rightarrow> (real \<times> real) list" where
  "coord_of x = grid_coord (world_shape x) (step_size x)"

definition initial_nodes :: "GridWorld \<Rightarrow> nat list" where
  "initial_nodes x = seed_nodes (S_hat0 x)"

text \<open>
  \<open>update_sets\<close>: the three sets are recomputed from the current belief and written over
  the old ones; an empty seed is the "no safe region" condition.  The training data are
  not touched.
\<close>

definition update_sets :: "env \<Rightarrow> GridWorld \<Rightarrow> error + GridWorld" where
  "update_sets e x =
     (if seed_nodes (S_hat0 x) = [] then Inl NoSafeRegion
      else let new_S = array_of (world_shape x) (in_S e x);
               new_S_hat = array_of (world_shape x) (in_S_hat e x)
           in Inr (x\<lparr>S := new_S, S_hat := new_S_hat,
                     G := array_of (world_shape x) (expanders e (gp x) new_S new_S_hat)\<rparr>))"

text \<open>
  \<open>target_sample\<close>: the transition of \<open>G\<close> with the largest posterior variance, the first
  one in the order of node, then action, among equals; the "empty frontier" condition
  when \<open>G\<close> marks nothing.
\<close>

definition target_sample :: "env \<Rightarrow> GridWorld \<Rightarrow> error + (nat \<times> nat)" where
  "target_sample e x =
     (case marked (G x) of
        [] \<Rightarrow> Inl EmptyFrontier
      | t # ts \<Rightarrow>
          Inr (foldl (\<lambda>best c. if snd (predict e (gp x) best) < snd (predict e (gp x) c)
                                then c else best) t ts))"

text \<open>
  \<open>add_observation\<close>: the destination is resolved on the grid (no such transition is an
  error), the sensor is queried at that edge, and the observation is appended to the
  training data.
\<close>

definition add_observation :: "env \<Rightarrow> GridWorld \<Rightarrow> nat \<Rightarrow> nat \<Rightarrow> error + GridWorld" where
  "add_observation e x s a =
     (case neighbor (world_shape x) s a of
        None \<Rightarrow> Inl NoSuchTransition
      | Some s' \<Rightarrow>
          Inr (x\<lparr>gp := set_XY (gp x) (X (gp x) @ [Edge s a s'])
                                       (Y (gp x) @ [sensor e x s a s'])\<rparr>))"

section \<open>The Oracle Evaluator (specification, section 4.6)\<close>

text \<open>
  \<open>compute_true_safe_set(world_shape, altitudes, h)\<close>: the safe set of the exact
  feature; \<open>compute_true_S_hat(graph, true_S, initial_nodes)\<close>: the closure of section
  4.3 over it, from the initial nodes.  Both return new arrays and change nothing.
\<close>

definition compute_true_safe_set :: "env \<Rightarrow> nat \<times> nat \<Rightarrow> real list \<Rightarrow> real \<Rightarrow> bool_array" where
  "compute_true_safe_set e shape alts t =
     array_of shape (\<lambda>(s, a). case neighbor shape s a of
                                 None \<Rightarrow> False
                               | Some s' \<Rightarrow> a = STAY \<or> t \<le> feature e alts s s')"

definition compute_true_S_hat :: "nat \<times> nat \<Rightarrow> bool_array \<Rightarrow> nat list \<Rightarrow> bool_array" where
  "compute_true_S_hat shape true_S nodes =
     array_of shape (closure (\<lambda>t. entry true_S (fst t) (snd t)) shape (\<lambda>t. False) nodes)"


section \<open>The experiment \<^verbatim>\<open>mars.py\<close>\<close>

text \<open>
  The module-level names of \<^verbatim>\<open>mars.py\<close> carry the prefix \<open>mars_\<close> where the class
  \<open>GridWorld\<close> has an attribute of the same name.  The raster file, the plots, the
  timing and the printed lines are left out; the altitudes read from the file and the
  seed set returned by \<open>compute_S_hat0\<close> (a function of \<^verbatim>\<open>grid_world\<close>) are inputs.
\<close>

definition mars_world_shape :: "nat \<times> nat" where
  "mars_world_shape = (60, 60)"

definition mars_step_size :: "real \<times> real" where
  "mars_step_size = (2, 2)"

text \<open>Lines 52 to 56.\<close>

definition coord :: "(real \<times> real) list" where
  "coord = grid_coord mars_world_shape mars_step_size"

text \<open>Line 59: \<^verbatim>\<open>h = -np.tan(np.pi / 9.) * step_size[0]\<close>.\<close>

definition mars_h :: real where
  "mars_h = - tan (pi / 9) * fst mars_step_size"

definition mars_L :: real where
  "mars_L = 1"

definition mars_beta :: real where
  "mars_beta = 3"

text \<open>Lines 68 and 69: \<^verbatim>\<open>S0 = np.zeros((np.prod(world_shape), 5), dtype=bool)\<close>, \<^verbatim>\<open>S0[:, 0] = True\<close>.\<close>

definition mars_S0 :: bool_array where
  "mars_S0 = map (\<lambda>row. row[0 := True])
                 (replicate (fst mars_world_shape * snd mars_world_shape) (replicate 5 False))"

text \<open>Lines 74 to 76.\<close>

definition linspace :: "real \<Rightarrow> real \<Rightarrow> nat \<Rightarrow> real list" where
  "linspace a b num = map (\<lambda>i. a + real i * ((b - a) / real (num - 1))) [0..<num]"

definition lengthScale :: "real list" where
  "lengthScale = linspace 10 13 4"

definition noise :: "real list" where
  "noise = linspace (1 / 100) (21 / 100) 3"

definition parameters_shape :: "nat \<times> nat" where
  "parameters_shape = (length noise, length lengthScale)"

definition n_samples :: nat where
  "n_samples = 1"

text \<open>
  \<open>np.empty\<close> returns an array of the shape with arbitrary entries: the entries are a
  parameter.  \<^verbatim>\<open>M[i, j] = v\<close> writes one entry and raises \<open>IndexError\<close> outside the array.
\<close>

definition np_empty :: "(nat \<Rightarrow> nat \<Rightarrow> int) \<Rightarrow> nat \<times> nat \<Rightarrow> int list list" where
  "np_empty junk shape = map (\<lambda>i. map (\<lambda>j. junk i j) [0..<snd shape]) [0..<fst shape]"

definition set_item :: "int list list \<Rightarrow> nat \<Rightarrow> nat \<Rightarrow> int \<Rightarrow> error + int list list" where
  "set_item M i j v =
     (if i < length M \<and> j < length (M ! i) then Inr (M[i := (M ! i)[j := v]])
      else Inl IndexError)"

text \<open>
  \<open>np.random.choice\<close>: the generator is a counter into the stream of draws; the choice
  from an empty array raises \<open>ValueError\<close>.
\<close>

definition choice :: "env \<Rightarrow> nat \<Rightarrow> 'a list \<Rightarrow> error + ('a \<times> nat)" where
  "choice e k xs =
     (if xs = [] then Inl ValueError else Inr (xs ! (draws e k mod length xs), Suc k))"

text \<open>
  The state of the script between two hyperparameter combinations: the generator and the
  three arrays of results.  The field \<open>runs\<close> is not a variable of the script: it records,
  for each combination completed, the grid world it ended with and the oracle's set, so
  that statements can refer to them.
\<close>

record script =
  rng :: nat
  size_S_hat :: "int list list"
  true_S_hat_minus_S_hat :: "int list list"
  S_hat_minus_true_S_hat :: "int list list"
  runs :: "(GridWorld \<times> bool_array) list"

text \<open>
  Lines 100 to 106: a node with a directional seed transition is drawn, then ten
  observations of directional seed transitions of that node are inserted.  The steps fail
  in the order of the source:
  \<^item> line 101 indexes the node numbers with a mask of one entry per row of \<open>S_hat\<close>: a
    mask of the wrong length raises \<open>IndexError\<close>, except the empty one, which selects
    nothing;
  \<^item> \<open>np.random.choice\<close> raises \<open>ValueError\<close> when no node was selected;
  \<^item> line 103 indexes the actions \<open>1, ..., S.shape[1] - 1\<close> with the directional part of the
    row of \<open>S_hat\<close>, squeezed: a row of two columns gives a mask without dimension, the
    selection is then two-dimensional and \<open>np.random.choice\<close> raises \<open>ValueError\<close> on it; a
    longer mask of the wrong length raises \<open>IndexError\<close>.
\<close>

fun insert_loop ::
  "env \<Rightarrow> nat \<Rightarrow> nat \<Rightarrow> nat list \<Rightarrow> nat \<Rightarrow> GridWorld \<Rightarrow> error + (GridWorld \<times> nat)" where
  "insert_loop e 0 s_vec_ind actions k x = Inr (x, k)"
| "insert_loop e (Suc i) s_vec_ind actions k x =
     (case choice e k actions of
        Inl er \<Rightarrow> Inl er
      | Inr (a, k') \<Rightarrow>
         (case add_observation e x s_vec_ind a of
            Inl er \<Rightarrow> Inl er
          | Inr x' \<Rightarrow> insert_loop e i s_vec_ind actions k' x'))"

definition insert_samples :: "env \<Rightarrow> nat \<Rightarrow> GridWorld \<Rightarrow> error + (GridWorld \<times> nat)" where
  "insert_samples e k x =
     (if S_hat x \<noteq> [] \<and> length (S_hat x) \<noteq> length (coord_of x) then Inl IndexError
      else case choice e k (filter (\<lambda>s. \<exists>b \<in> set (drop 1 (S_hat x ! s)). b)
                                   [0..<length (S_hat x)]) of
        Inl er \<Rightarrow> Inl er
      | Inr (s_vec_ind, k') \<Rightarrow>
          (if length (S_hat x ! s_vec_ind) = 2 then Inl ValueError
           else if length (S_hat x ! s_vec_ind) \<noteq> length (S x ! 0) then Inl IndexError
           else insert_loop e 10 s_vec_ind
                  (filter (\<lambda>a. S_hat x ! s_vec_ind ! a) [1..<length (S x ! 0)]) k' x))"

text \<open>Line 110: \<^verbatim>\<open>x.gp.set_XY(x.gp.X[n_samples:, :], x.gp.Y[n_samples:])\<close>.\<close>

definition remove_samples :: "GridWorld \<Rightarrow> GridWorld" where
  "remove_samples x =
     x\<lparr>gp := set_XY (gp x) (drop n_samples (X (gp x))) (drop n_samples (Y (gp x)))\<rparr>"

text \<open>
  Lines 113 to 119, the exploration loop; an exception raised by one of the three calls
  leaves the loop and the script.
\<close>

fun exploration_loop :: "env \<Rightarrow> nat \<Rightarrow> GridWorld \<Rightarrow> error + GridWorld" where
  "exploration_loop e 0 x = Inr x"
| "exploration_loop e (Suc i) x =
     (case update_sets e x of
        Inl er \<Rightarrow> Inl er
      | Inr x1 \<Rightarrow>
         (case target_sample e x1 of
            Inl er \<Rightarrow> Inl er
          | Inr next_sample \<Rightarrow>
             (case add_observation e x1 (fst next_sample) (snd next_sample) of
                Inl er \<Rightarrow> Inl er
              | Inr x2 \<Rightarrow> exploration_loop e i x2)))"

text \<open>
  Lines 90 to 120: the Gaussian process and the grid world of one combination, the
  inserted samples, the removal of the initial samples and fifty iterations.
\<close>

definition explore ::
  "env \<Rightarrow> real list \<Rightarrow> bool_array \<Rightarrow> gp_input list \<Rightarrow> real list \<Rightarrow> real \<Rightarrow> real \<Rightarrow> nat
     \<Rightarrow> error + (GridWorld \<times> nat)" where
  "explore e alts s_hat0 x0 y0 len sigma_n k =
     (case GridWorld_init
             \<lparr>X = x0, Y = y0, lengthscale = len, kernel_variance = 144,
              noise_variance = sigma_n ^ 2\<rparr>
             mars_world_shape mars_step_size mars_beta alts mars_h mars_S0 s_hat0 mars_L of
        Inl er \<Rightarrow> Inl er
      | Inr x \<Rightarrow>
         (case insert_samples e k x of
            Inl er \<Rightarrow> Inl er
          | Inr (x', k') \<Rightarrow>
             (case exploration_loop e 50 (remove_samples x') of
                Inl er \<Rightarrow> Inl er
              | Inr x'' \<Rightarrow> Inr (x'', k'))))"

text \<open>
  Lines 122 to 140: the oracle's sets, the two differences (printed, then stored) and the
  size of \<open>S_hat\<close>.
\<close>

definition store_performance ::
  "env \<Rightarrow> nat \<Rightarrow> nat \<Rightarrow> GridWorld \<Rightarrow> script \<Rightarrow> error + script" where
  "store_performance e index_n index_l x st =
     (let true_S = compute_true_safe_set e (world_shape x) (altitudes x) (h x);
          true_S_hat = compute_true_S_hat (world_shape x) true_S (initial_nodes x)
      in case logical_and true_S_hat (logical_not (S_hat x)) of
           Inl er \<Rightarrow> Inl er
         | Inr missed \<Rightarrow>
            (case logical_and (S_hat x) (logical_not true_S_hat) of
               Inl er \<Rightarrow> Inl er
             | Inr wrong \<Rightarrow>
                (case set_item (size_S_hat st) index_n index_l (np_sum (S_hat x)) of
                   Inl er \<Rightarrow> Inl er
                 | Inr m1 \<Rightarrow>
                    (case set_item (true_S_hat_minus_S_hat st) index_n index_l (np_sum missed) of
                       Inl er \<Rightarrow> Inl er
                     | Inr m2 \<Rightarrow>
                        (case set_item (S_hat_minus_true_S_hat st) index_n index_l
                                (np_sum wrong) of
                           Inl er \<Rightarrow> Inl er
                         | Inr m3 \<Rightarrow>
                             Inr (st\<lparr>size_S_hat := m1, true_S_hat_minus_S_hat := m2,
                                     S_hat_minus_true_S_hat := m3,
                                     runs := runs st @ [(x, true_S_hat)]\<rparr>))))))"

text \<open>The body of the two loops of lines 88 and 89, for one pair of indices.\<close>

definition run_combination ::
  "env \<Rightarrow> real list \<Rightarrow> bool_array \<Rightarrow> gp_input list \<Rightarrow> real list \<Rightarrow> nat \<Rightarrow> nat \<Rightarrow> script
     \<Rightarrow> error + script" where
  "run_combination e alts s_hat0 x0 y0 index_l index_n st =
     (case explore e alts s_hat0 x0 y0 (lengthScale ! index_l) (noise ! index_n) (rng st) of
        Inl er \<Rightarrow> Inl er
      | Inr (x, k) \<Rightarrow> store_performance e index_n index_l x (st\<lparr>rng := k\<rparr>))"

fun sweep ::
  "env \<Rightarrow> real list \<Rightarrow> bool_array \<Rightarrow> gp_input list \<Rightarrow> real list \<Rightarrow> (nat \<times> nat) list \<Rightarrow> script
     \<Rightarrow> error + script" where
  "sweep e alts s_hat0 x0 y0 [] st = Inr st"
| "sweep e alts s_hat0 x0 y0 (c # cs) st =
     (case run_combination e alts s_hat0 x0 y0 (fst c) (snd c) st of
        Inl er \<Rightarrow> Inl er
      | Inr st' \<Rightarrow> sweep e alts s_hat0 x0 y0 cs st')"

text \<open>
  The pairs \<open>(index_l, index_n)\<close> in the order of the nested loops: lengthscale outside,
  noise inside.
\<close>

definition combinations :: "(nat \<times> nat) list" where
  "combinations = concat (map (\<lambda>index_l. map (\<lambda>index_n. (index_l, index_n)) [0..<length noise])
                              [0..<length lengthScale])"

text \<open>
  The script: the three arrays of lines 78 to 80, the initial sample of lines 83 to 86
  (one draw, \<open>n_samples = 1\<close>) and the sweep.
\<close>

definition mars ::
  "env \<Rightarrow> real list \<Rightarrow> bool_array \<Rightarrow> (nat \<Rightarrow> nat \<Rightarrow> int) \<Rightarrow> error + script" where
  "mars e alts s_hat0 junk =
     (case choice e 0 [0..<length alts] of
        Inl er \<Rightarrow> Inl er
      | Inr (ind, k) \<Rightarrow>
         (if length coord \<le> ind then Inl IndexError
          else sweep e alts s_hat0 [Coordinate (fst (coord ! ind)) (snd (coord ! ind))]
                 [alts ! ind] combinations
                 \<lparr>rng = k, size_S_hat = np_empty junk parameters_shape,
                  true_S_hat_minus_S_hat = np_empty junk parameters_shape,
                  S_hat_minus_true_S_hat = np_empty junk parameters_shape,
                  runs = []\<rparr>))"

text \<open>
  The online part alone, for comparison: the script without the oracle and without the
  arrays of results (lines 78 to 80 and 122 to 140 removed).  It returns the grid worlds
  the combinations ended with.
\<close>

fun explore_all ::
  "env \<Rightarrow> real list \<Rightarrow> bool_array \<Rightarrow> gp_input list \<Rightarrow> real list \<Rightarrow> (nat \<times> nat) list \<Rightarrow> nat
     \<Rightarrow> error + GridWorld list" where
  "explore_all e alts s_hat0 x0 y0 [] k = Inr []"
| "explore_all e alts s_hat0 x0 y0 (c # cs) k =
     (case explore e alts s_hat0 x0 y0 (lengthScale ! fst c) (noise ! snd c) k of
        Inl er \<Rightarrow> Inl er
      | Inr (x, k') \<Rightarrow>
         (case explore_all e alts s_hat0 x0 y0 cs k' of
            Inl er \<Rightarrow> Inl er
          | Inr xs \<Rightarrow> Inr (x # xs)))"

definition mars_online :: "env \<Rightarrow> real list \<Rightarrow> bool_array \<Rightarrow> error + GridWorld list" where
  "mars_online e alts s_hat0 =
     (case choice e 0 [0..<length alts] of
        Inl er \<Rightarrow> Inl er
      | Inr (ind, k) \<Rightarrow>
         (if length coord \<le> ind then Inl IndexError
          else explore_all e alts s_hat0 [Coordinate (fst (coord ! ind)) (snd (coord ! ind))]
                 [alts ! ind] combinations k))"

text \<open>
  For the statements about the results: the oracle's set for a grid world (the
  \<open>true_S_hat\<close> of lines 122 and 123), the three numbers stored for a pair of indices,
  the three counts they are compared with (the size of \<open>S_hat\<close>, the transitions of the
  oracle's set missing from it, its transitions missing from the oracle's set), and the
  arrays of results having the shape \<open>parameters_shape\<close>.
\<close>

definition oracle_set :: "env \<Rightarrow> GridWorld \<Rightarrow> bool_array" where
  "oracle_set e x =
     compute_true_S_hat (world_shape x)
       (compute_true_safe_set e (world_shape x) (altitudes x) (h x)) (initial_nodes x)"

definition cell :: "script \<Rightarrow> nat \<Rightarrow> nat \<Rightarrow> int \<times> int \<times> int" where
  "cell st index_n index_l =
     (size_S_hat st ! index_n ! index_l, true_S_hat_minus_S_hat st ! index_n ! index_l,
      S_hat_minus_true_S_hat st ! index_n ! index_l)"

definition scores :: "GridWorld \<Rightarrow> bool_array \<Rightarrow> int \<times> int \<times> int" where
  "scores x true_S_hat =
     (int (card {t. entry (S_hat x) (fst t) (snd t)}),
      int (card {t. entry true_S_hat (fst t) (snd t) \<and> \<not> entry (S_hat x) (fst t) (snd t)}),
      int (card {t. entry (S_hat x) (fst t) (snd t) \<and> \<not> entry true_S_hat (fst t) (snd t)}))"

definition shaped :: "int list list \<Rightarrow> bool" where
  "shaped M = (length M = fst parameters_shape \<and> list_all (\<lambda>row. length row = snd parameters_shape) M)"

definition well_shaped :: "script \<Rightarrow> bool" where
  "well_shaped st =
     (shaped (size_S_hat st) \<and> shaped (true_S_hat_minus_S_hat st)
      \<and> shaped (S_hat_minus_true_S_hat st))"

text \<open>
  A run (a grid world with the oracle's set) is recorded for a pair of indices when the set
  is the oracle's for that grid world, the cell of the pair holds the three counts, and
  the Gaussian process of the grid world has the hyperparameters of the pair.
\<close>

definition recorded :: "env \<Rightarrow> script \<Rightarrow> nat \<Rightarrow> nat \<Rightarrow> GridWorld \<times> bool_array \<Rightarrow> bool" where
  "recorded e st index_l index_n r =
     (snd r = oracle_set e (fst r)
      \<and> cell st index_n index_l = scores (fst r) (snd r)
      \<and> lengthscale (gp (fst r)) = lengthScale ! index_l
      \<and> noise_variance (gp (fst r)) = (noise ! index_n) ^ 2)"

section \<open>Sequences of operations, and an environment for examples\<close>

text \<open>
  The points of a run are the states reached by sequences of operations on a grid world:
  the three operations of the class, and \<open>set_XY\<close> on its Gaussian process (the only
  operation that replaces training data).  \<open>target_sample\<close> changes no state; its
  exception still ends the run.
\<close>

datatype operation =
    Update_sets
  | Target_sample
  | Add_observation nat nat
  | Set_XY "gp_input list" "real list"

fun apply_operation :: "env \<Rightarrow> GridWorld \<Rightarrow> operation \<Rightarrow> error + GridWorld" where
  "apply_operation e x Update_sets = update_sets e x"
| "apply_operation e x Target_sample =
     (case target_sample e x of Inl er \<Rightarrow> Inl er | Inr next_sample \<Rightarrow> Inr x)"
| "apply_operation e x (Add_observation s a) = add_observation e x s a"
| "apply_operation e x (Set_XY xs ys) = Inr (x\<lparr>gp := set_XY (gp x) xs ys\<rparr>)"

fun run_operations :: "env \<Rightarrow> GridWorld \<Rightarrow> operation list \<Rightarrow> error + GridWorld" where
  "run_operations e x [] = Inr x"
| "run_operations e x (op # ops) =
     (case apply_operation e x op of
        Inl er \<Rightarrow> Inl er
      | Inr x' \<Rightarrow> run_operations e x' ops)"

fun is_reset :: "operation \<Rightarrow> bool" where
  "is_reset (Set_XY xs ys) = True"
| "is_reset op = False"

text \<open>The edges that the \<open>add_observation\<close> calls of a sequence of operations query.\<close>

fun observed :: "nat \<times> nat \<Rightarrow> operation list \<Rightarrow> gp_input list" where
  "observed shape [] = []"
| "observed shape (Add_observation s a # ops) =
     (case neighbor shape s a of None \<Rightarrow> [] | Some s' \<Rightarrow> [Edge s a s']) @ observed shape ops"
| "observed shape (op # ops) = observed shape ops"

text \<open>
  Two grid worlds with the same belief (Gaussian process) and the same configuration; they
  may differ in the sets \<open>S\<close>, \<open>S_hat\<close> and \<open>G\<close> left from earlier computations.
\<close>

definition same_belief :: "GridWorld \<Rightarrow> GridWorld \<Rightarrow> bool" where
  "same_belief x y =
     (gp y = gp x \<and> world_shape y = world_shape x \<and> beta y = beta x \<and> h y = h x
      \<and> L y = L x \<and> S_hat0 y = S_hat0 x)"

text \<open>
  Two environments that agree on everything the online algorithm consults; they may differ
  in the exact feature, which only the oracle reads.
\<close>

definition same_online :: "env \<Rightarrow> env \<Rightarrow> bool" where
  "same_online e e' =
     (predict e' = predict e \<and> sensor e' = sensor e
      \<and> geometric_neighbors e' = geometric_neighbors e \<and> expanders e' = expanders e
      \<and> draws e' = draws e)"

text \<open>STAY is marked in \<open>S\<close> at every node of the grid.\<close>

definition stay_marked :: "GridWorld \<Rightarrow> bool" where
  "stay_marked x = (\<forall>s < fst (world_shape x) * snd (world_shape x). entry (S x) s STAY)"

text \<open>
  An environment for the examples: a posterior that never changes, a sensor that always
  measures 0, no geometric neighbours, and the STAY transition of node 0 as the only
  expander.
\<close>

definition example_env :: env where
  "example_env =
     \<lparr>predict = (\<lambda>g t. (0, 1)), sensor = (\<lambda>x s a s'. 0), feature = (\<lambda>alts s s'. 0),
      geometric_neighbors = (\<lambda>t. []), expanders = (\<lambda>g s s_hat t. t = (0, 0)),
      draws = (\<lambda>k. 0)\<rparr>"

definition example_gp :: GP where
  "example_gp = \<lparr>X = [Coordinate 0 0], Y = [0], lengthscale = 10, kernel_variance = 144,
                 noise_variance = 1\<rparr>"

text \<open>The same environment with an empty frontier.\<close>

definition stalled_env :: env where
  "stalled_env = example_env\<lparr>expanders := (\<lambda>g s s_hat t. False)\<rparr>"

text \<open>
  The grid world that the constructor call of \<^verbatim>\<open>mars.py\<close> returns for the example process,
  flat altitudes and the seed that marks STAY at every node.
\<close>

definition flat_altitudes :: "real list" where
  "flat_altitudes = replicate (fst mars_world_shape * snd mars_world_shape) 0"

definition example_world :: GridWorld where
  "example_world =
     \<lparr>gp = example_gp, world_shape = mars_world_shape, step_size = mars_step_size,
      beta = mars_beta, altitudes = flat_altitudes, h = mars_h, S = mars_S0,
      S_hat = mars_S0, S_hat0 = mars_S0, G = array_of mars_world_shape (\<lambda>t. False),
      L = mars_L\<rparr>"

text \<open>
  A seed for the examples: at node 0, STAY and the direction with index 2 (which leads to
  node 60 on the grid of \<^verbatim>\<open>mars.py\<close>).
\<close>

definition example_seed :: bool_array where
  "example_seed = array_of mars_world_shape (\<lambda>t. t = (0, 0) \<or> t = (0, 2))"

section \<open>Results about \<^verbatim>\<open>plot_dist_from_C\<close>\<close>

lemma broadcast_same_length:
  "length xs = length ys \<Longrightarrow> broadcast f xs ys = Inr (map2 f xs ys)"
  by (simp add: broadcast_def)

lemma confidence_bounds_same_length:
  assumes "length mu = length var"
  shows "confidence_bounds mu var b =
           Inr (map2 (\<lambda>m v. m - b * sqrt v) mu var, map2 (\<lambda>m v. m + b * sqrt v) mu var)"
proof -
  have len: "length mu = length (map (\<lambda>v. b * sqrt v) var)"
    using assms by simp
  have l: "map2 (\<lambda>p q. p - q) mu (map (\<lambda>v. b * sqrt v) var) = map2 (\<lambda>m v. m - b * sqrt v) mu var"
    by (simp add: zip_map2 case_prod_unfold)
  have u: "map2 (\<lambda>p q. p + q) mu (map (\<lambda>v. b * sqrt v) var) = map2 (\<lambda>m v. m + b * sqrt v) mu var"
    by (simp add: zip_map2 case_prod_unfold)
  show ?thesis
    unfolding confidence_bounds_def Let_def broadcast_same_length [OF len]
    by (simp add: l u)
qed

text \<open>
  C2.  For posterior arrays \<open>mu\<close> and \<open>var\<close> of one length with non-negative variances and
  any multiplier \<open>beta\<close>, \<^verbatim>\<open>plot_dist_from_C\<close> computes its bounds without error and entry
  \<open>i\<close> of the lower bound is \<open>mu[i] - beta * sqrt(var[i])\<close>, entry \<open>i\<close> of the upper bound is
  \<open>mu[i] + beta * sqrt(var[i])\<close>.
\<close>

theorem confidence_bounds_formula:
  assumes "length mu = length var" and "\<forall>v \<in> set var. 0 \<le> v"
  shows "\<exists>l u. confidence_bounds mu var b = Inr (l, u)
           \<and> length l = length mu \<and> length u = length mu
           \<and> (\<forall>i < length mu. l ! i = mu ! i - b * sqrt (var ! i)
                             \<and> u ! i = mu ! i + b * sqrt (var ! i))"
  using assms(1) by (simp add: confidence_bounds_same_length)

theorem confidence_bounds_formula_witness:
  "length [1, 5 :: real] = length [4, 0 :: real] \<and> list_all (\<lambda>v. 0 \<le> v) [4, 0 :: real]
   \<and> confidence_bounds [1, 5] [4, 0] 3 = Inr ([-5, 5], [7, 5])"
proof -
  obtain l u where lu: "confidence_bounds [1, 5] [4, 0] 3 = Inr (l, u)"
    "length l = length [1, 5 :: real]" "length u = length [1, 5 :: real]"
    "\<forall>i < length [1, 5 :: real]. l ! i = [1, 5] ! i - 3 * sqrt ([4, 0] ! i)
                                 \<and> u ! i = [1, 5] ! i + 3 * sqrt ([4, 0] ! i)"
    using confidence_bounds_formula [of "[1, 5]" "[4, 0]" 3] by auto
  from lu(4) have "l ! 0 = -5" "l ! 1 = 5" "u ! 0 = 7" "u ! 1 = 5"
    by simp_all
  moreover from lu(2) obtain a b where "l = [a, b]"
    by (cases l; cases "tl l") auto
  moreover from lu(3) obtain c d where "u = [c, d]"
    by (cases u; cases "tl u") auto
  ultimately have "l = [-5, 5]" "u = [7, 5]"
    by simp_all
  with lu(1) show ?thesis by simp
qed

lemma dist_same_length:
  assumes "length mu = length var" and "length var = length alts"
  shows "dist_from_confidence_interval mu var b alts =
           Inr (map (\<lambda>i. let a = alts ! i;
                             l = mu ! i - b * sqrt (var ! i);
                             u = mu ! i + b * sqrt (var ! i)
                         in if a - l < 0 then a - l else if a - u > 0 then a - u else 0)
                    [0..<length alts])"
proof -
  let ?l = "map2 (\<lambda>m v. m - b * sqrt v) mu var"
  let ?u = "map2 (\<lambda>m v. m + b * sqrt v) mu var"
  let ?n = "length alts"
  have lenl: "length alts = length ?l" and lenu: "length alts = length ?u"
    using assms by simp_all
  let ?du = "map2 (\<lambda>p q. p - q) alts ?u"
  let ?dl = "map2 (\<lambda>p q. p - q) alts ?l"
  let ?d1 = "map2 (\<lambda>x y. if y > 0 then y else x) (replicate ?n 0) ?du"
  have a1: "assign_where (\<lambda>x. x > 0) (replicate ?n 0) ?du = Inr ?d1"
    using assms by (simp add: assign_where_def)
  have a2: "assign_where (\<lambda>x. x < 0) ?d1 ?dl = Inr (map2 (\<lambda>x y. if y < 0 then y else x) ?d1 ?dl)"
    using assms by (simp add: assign_where_def)
  have eq: "map2 (\<lambda>x y. if y < 0 then y else x) ?d1 ?dl =
            map (\<lambda>i. let a = alts ! i;
                             l = mu ! i - b * sqrt (var ! i);
                             u = mu ! i + b * sqrt (var ! i)
                         in if a - l < 0 then a - l else if a - u > 0 then a - u else 0)
                    [0..<length alts]"
    using assms by (intro nth_equalityI) (simp_all add: Let_def)
  show ?thesis
    unfolding dist_from_confidence_interval_def confidence_bounds_same_length [OF assms(1)]
    by (simp add: Let_def broadcast_same_length [OF lenl] broadcast_same_length [OF lenu]
          a1 a2 eq del: upt.simps)
qed

text \<open>
  C10.  For arrays \<open>mu\<close>, \<open>var\<close> and \<open>altitudes\<close> of one length with non-negative variances
  and \<open>beta \<ge> 0\<close>, the distance array is computed without error, has one entry per
  altitude, and with \<open>l = mu - beta * sqrt(var)\<close> and \<open>u = mu + beta * sqrt(var)\<close> its entry
  is \<open>a - u\<close>, strictly positive, where \<open>a > u\<close>; is \<open>a - l\<close>, strictly negative, where
  \<open>a < l\<close>; and is \<open>0\<close> where \<open>l \<le> a \<le> u\<close>.
\<close>

theorem dist_from_confidence_interval_cases:
  assumes "length mu = length var" and "length var = length alts"
    and "\<forall>v \<in> set var. 0 \<le> v" and "0 \<le> b"
  shows "\<exists>d. dist_from_confidence_interval mu var b alts = Inr d
           \<and> length d = length alts
           \<and> (\<forall>i < length alts.
                 (mu ! i + b * sqrt (var ! i) < alts ! i \<longrightarrow>
                    d ! i = alts ! i - (mu ! i + b * sqrt (var ! i)) \<and> 0 < d ! i)
               \<and> (alts ! i < mu ! i - b * sqrt (var ! i) \<longrightarrow>
                    d ! i = alts ! i - (mu ! i - b * sqrt (var ! i)) \<and> d ! i < 0)
               \<and> (mu ! i - b * sqrt (var ! i) \<le> alts ! i
                    \<and> alts ! i \<le> mu ! i + b * sqrt (var ! i) \<longrightarrow> d ! i = 0))"
proof -
  have sig: "0 \<le> b * sqrt (var ! i)" if "i < length alts" for i
  proof -
    from that assms(2) have "var ! i \<in> set var" by simp
    with assms(3) have "0 \<le> sqrt (var ! i)" by simp
    with assms(4) show ?thesis by simp
  qed
  show ?thesis
    unfolding dist_same_length [OF assms(1,2)]
    using sig by (fastforce simp: Let_def simp del: upt.simps)
qed

theorem dist_from_confidence_interval_cases_witness:
  "length [1, 5, 0 :: real] = length [4, 0, 1 :: real]
   \<and> length [4, 0, 1 :: real] = length [9, 5, -4 :: real]
   \<and> list_all (\<lambda>v. 0 \<le> v) [4, 0, 1 :: real] \<and> (0 :: real) \<le> 3
   \<and> dist_from_confidence_interval [1, 5, 0] [4, 0, 1] 3 [9, 5, -4] = Inr [2, 0, -1]"
proof -
  obtain d where d: "dist_from_confidence_interval [1, 5, 0] [4, 0, 1] 3 [9, 5, -4] = Inr d"
    "length d = length [9, 5, -4 :: real]"
    "\<forall>i < length [9, 5, -4 :: real].
        ([1, 5, 0] ! i + 3 * sqrt ([4, 0, 1] ! i) < [9, 5, -4] ! i \<longrightarrow>
           d ! i = [9, 5, -4] ! i - ([1, 5, 0] ! i + 3 * sqrt ([4, 0, 1] ! i)) \<and> 0 < d ! i)
      \<and> ([9, 5, -4] ! i < [1, 5, 0] ! i - 3 * sqrt ([4, 0, 1] ! i) \<longrightarrow>
           d ! i = [9, 5, -4] ! i - ([1, 5, 0] ! i - 3 * sqrt ([4, 0, 1] ! i)) \<and> d ! i < 0)
      \<and> ([1, 5, 0] ! i - 3 * sqrt ([4, 0, 1] ! i) \<le> [9, 5, -4] ! i
           \<and> [9, 5, -4] ! i \<le> [1, 5, 0] ! i + 3 * sqrt ([4, 0, 1] ! i) \<longrightarrow> d ! i = 0)"
    using dist_from_confidence_interval_cases [of "[1, 5, 0]" "[4, 0, 1]" "[9, 5, -4]" 3]
    by auto
  from d(3) have "d ! 0 = 2" "d ! 1 = 0" "d ! 2 = -1"
    by (simp_all add: nth_Cons')
  moreover from d(2) obtain a b c where "d = [a, b, c]"
    by (cases d; cases "tl d"; cases "tl (tl d)") auto
  ultimately have "d = [2, 0, -1]" by simp
  with d(1) show ?thesis by simp
qed


section \<open>Basic facts about arrays, the grid and sequences of operations\<close>

lemma length_array_of: "length (array_of shape P) = fst shape * snd shape"
  by (simp add: array_of_def)

lemma entry_array_of:
  "entry (array_of shape P) s a = (s < fst shape * snd shape \<and> a < 5 \<and> P (s, a))"
  by (auto simp add: entry_def array_of_def simp del: upt.simps)

lemma shape_of_array_of: "shape_of (array_of shape P) = replicate (fst shape * snd shape) 5"
  by (simp add: shape_of_def array_of_def map_replicate_const comp_def del: upt.simps)

lemma neighbor_stay: "s < fst shape * snd shape \<Longrightarrow> neighbor shape s STAY = Some s"
  by (simp add: neighbor_def Let_def)

lemma neighbor_in_grid: "neighbor shape s a = Some s' \<Longrightarrow> s < fst shape * snd shape \<and> a < 5"
  by (auto simp add: neighbor_def Let_def STAY_def split: if_splits)

lemma transitions_iff:
  "t \<in> set (transitions shape) = (neighbor shape (fst t) (snd t) \<noteq> None)"
proof
  assume "t \<in> set (transitions shape)"
  then show "neighbor shape (fst t) (snd t) \<noteq> None"
    by (auto simp add: transitions_def simp del: upt.simps)
next
  assume a: "neighbor shape (fst t) (snd t) \<noteq> None"
  then obtain s' where "neighbor shape (fst t) (snd t) = Some s'" by auto
  from neighbor_in_grid [OF this] a show "t \<in> set (transitions shape)"
    by (cases t) (auto simp add: transitions_def image_iff simp del: upt.simps)
qed

lemma stay_in_S: "s < fst (world_shape x) * snd (world_shape x) \<Longrightarrow> in_S e x (s, STAY)"
  by (rule in_S.stay) (simp add: transitions_iff neighbor_stay)

lemma STAY_less_5: "STAY < 5"
  by (simp add: STAY_def)

lemma update_sets_stay: "update_sets e x = Inr x' \<Longrightarrow> stay_marked x'"
  by (auto simp add: update_sets_def stay_marked_def Let_def entry_array_of stay_in_S STAY_less_5
      split: if_splits)

lemma update_sets_shape: "update_sets e x = Inr x' \<Longrightarrow> world_shape x' = world_shape x"
  by (auto simp add: update_sets_def Let_def split: if_splits)

lemma apply_operation_stay:
  "apply_operation e x op = Inr x' \<Longrightarrow> stay_marked x \<Longrightarrow> stay_marked x'"
proof (cases op)
  case Update_sets
  then show "apply_operation e x op = Inr x' \<Longrightarrow> stay_marked x'"
    by (simp add: update_sets_stay)
next
  case Target_sample
  then show "apply_operation e x op = Inr x' \<Longrightarrow> stay_marked x \<Longrightarrow> stay_marked x'"
    by (auto split: sum.splits)
next
  case (Add_observation s a)
  then show "apply_operation e x op = Inr x' \<Longrightarrow> stay_marked x \<Longrightarrow> stay_marked x'"
    by (auto simp add: add_observation_def stay_marked_def split: option.splits)
next
  case (Set_XY xs ys)
  then show "apply_operation e x op = Inr x' \<Longrightarrow> stay_marked x \<Longrightarrow> stay_marked x'"
    by (auto simp add: stay_marked_def)
qed

lemma apply_operation_shape:
  "apply_operation e x op = Inr x' \<Longrightarrow> world_shape x' = world_shape x"
  by (cases op)
    (auto simp add: update_sets_def add_observation_def Let_def
      split: if_splits sum.splits option.splits)

lemma run_operations_shape:
  "run_operations e x ops = Inr x' \<Longrightarrow> world_shape x' = world_shape x"
proof (induction ops arbitrary: x)
  case Nil
  then show ?case by simp
next
  case (Cons op ops)
  then show ?case
    by (auto split: sum.splits dest: apply_operation_shape)
qed

lemma run_operations_stay:
  "run_operations e x ops = Inr x' \<Longrightarrow> stay_marked x \<Longrightarrow> stay_marked x'"
proof (induction ops arbitrary: x)
  case Nil
  then show ?case by simp
next
  case (Cons op ops)
  then show ?case
    by (auto split: sum.splits dest: apply_operation_stay)
qed

lemma mars_S0_row:
  "s < fst mars_world_shape * snd mars_world_shape \<Longrightarrow> mars_S0 ! s = [True, False, False, False, False]"
  by (simp add: mars_S0_def eval_nat_numeral)

lemma length_mars_S0: "length mars_S0 = fst mars_world_shape * snd mars_world_shape"
  by (simp add: mars_S0_def)

lemma entry_mars_S0:
  "entry mars_S0 s a = (s < fst mars_world_shape * snd mars_world_shape \<and> a = STAY)"
proof (cases "s < fst mars_world_shape * snd mars_world_shape")
  case True
  have "a < length [True, False, False, False, False] \<and> [True, False, False, False, False] ! a
          \<longleftrightarrow> a = 0"
    by (auto simp add: nth_Cons' less_Suc_eq)
  with True show ?thesis
    by (simp only: entry_def length_mars_S0 mars_S0_row STAY_def simp_thms)
next
  case False
  then show ?thesis by (simp add: entry_def length_mars_S0)
qed

lemma run_operations_append:
  "run_operations e x (ops @ ops') =
     (case run_operations e x ops of Inl er \<Rightarrow> Inl er | Inr x' \<Rightarrow> run_operations e x' ops')"
  by (induction ops arbitrary: x) (auto split: sum.splits)

lemma insert_loop_run:
  "insert_loop e n s acts k x = Inr (x', k')
   \<Longrightarrow> \<exists>ops. run_operations e x ops = Inr x' \<and> length ops = n \<and> (\<forall>op \<in> set ops. \<exists>a. op = Add_observation s a)"
proof (induction n arbitrary: k x)
  case 0
  then show ?case by simp
next
  case (Suc n)
  from Suc.prems obtain a k1 x1 where
    c: "choice e k acts = Inr (a, k1)" and ao: "add_observation e x s a = Inr x1"
    and rest: "insert_loop e n s acts k1 x1 = Inr (x', k')"
    by (auto split: sum.splits prod.splits)
  from Suc.IH [OF rest] obtain ops where
    ops: "run_operations e x1 ops = Inr x'" "length ops = n" "\<forall>op \<in> set ops. \<exists>a. op = Add_observation s a"
    by blast
  have "run_operations e x (Add_observation s a # ops) = Inr x'"
    using ao ops(1) by simp
  moreover have "length (Add_observation s a # ops) = Suc n"
    using ops(2) by simp
  moreover have "\<forall>op \<in> set (Add_observation s a # ops). \<exists>a. op = Add_observation s a"
    using ops(3) by simp
  ultimately show ?case by blast
qed

lemma exploration_loop_run:
  "exploration_loop e n x = Inr x'
   \<Longrightarrow> \<exists>ops. run_operations e x ops = Inr x' \<and> (\<forall>op \<in> set ops. \<not> is_reset op)"
proof (induction n arbitrary: x)
  case 0
  then have "run_operations e x [] = Inr x' \<and> (\<forall>op \<in> set []. \<not> is_reset op)"
    by simp
  then show ?case by (rule exI)
next
  case (Suc n)
  from Suc.prems obtain x1 t x2 where
    u: "update_sets e x = Inr x1" and ts: "target_sample e x1 = Inr t"
    and ao: "add_observation e x1 (fst t) (snd t) = Inr x2"
    and rest: "exploration_loop e n x2 = Inr x'"
    by (auto split: sum.splits)
  from Suc.IH [OF rest] obtain ops where
    ops: "run_operations e x2 ops = Inr x'" "\<forall>op \<in> set ops. \<not> is_reset op"
    by blast
  let ?ops = "Update_sets # Target_sample # Add_observation (fst t) (snd t) # ops"
  have "run_operations e x ?ops = Inr x'"
    using u ts ao ops(1) by simp
  moreover have "\<forall>op \<in> set ?ops. \<not> is_reset op"
    using ops(2) by simp
  ultimately show ?case by blast
qed

lemma explore_run:
  assumes "explore e alts s_hat0 x0 y0 len sigma_n k = Inr (x, k')"
  shows "\<exists>xi ops. GridWorld_init \<lparr>X = x0, Y = y0, lengthscale = len, kernel_variance = 144,
                       noise_variance = sigma_n ^ 2\<rparr>
                      mars_world_shape mars_step_size mars_beta alts mars_h mars_S0 s_hat0 mars_L = Inr xi
                   \<and> run_operations e xi ops = Inr x"
proof -
  let ?g = "\<lparr>X = x0, Y = y0, lengthscale = len, kernel_variance = 144, noise_variance = sigma_n ^ 2\<rparr>"
  from assms obtain xi x1 where
    i: "GridWorld_init ?g mars_world_shape mars_step_size mars_beta alts mars_h mars_S0 s_hat0 mars_L = Inr xi"
    and ins: "insert_samples e k xi = Inr (x1, k')"
    and lp: "exploration_loop e 50 (remove_samples x1) = Inr x"
    by (auto simp add: explore_def split: sum.splits prod.splits)
  from ins obtain s acts k1 where "insert_loop e 10 s acts k1 xi = Inr (x1, k')"
    by (auto simp add: insert_samples_def split: if_splits sum.splits prod.splits)
  from insert_loop_run [OF this] obtain ops1 where o1: "run_operations e xi ops1 = Inr x1"
    by blast
  let ?r = "Set_XY (drop n_samples (X (gp x1))) (drop n_samples (Y (gp x1)))"
  have o2: "run_operations e x1 [?r] = Inr (remove_samples x1)"
    by (simp add: remove_samples_def)
  from exploration_loop_run [OF lp] obtain ops3 where
    o3: "run_operations e (remove_samples x1) ops3 = Inr x" by blast
  have "run_operations e xi (ops1 @ [?r] @ ops3) = Inr x"
    using o1 o2 o3 by (simp add: run_operations_append)
  with i show ?thesis by blast
qed

lemma GridWorld_init_mars:
  "GridWorld_init g mars_world_shape mars_step_size mars_beta alts mars_h s0 s_hat0 mars_L =
     Inr \<lparr>gp = g, world_shape = mars_world_shape, step_size = mars_step_size, beta = mars_beta,
          altitudes = alts, h = mars_h, S = s0, S_hat = s_hat0, S_hat0 = s_hat0,
          G = array_of mars_world_shape (\<lambda>t. False), L = mars_L\<rparr>"
  by (simp add: GridWorld_init_def mars_world_shape_def mars_step_size_def mars_beta_def mars_L_def)

lemma nodes_positive: "0 < fst mars_world_shape * snd mars_world_shape"
  by (simp add: mars_world_shape_def)

lemma seed_nodes_member:
  "s \<in> set (seed_nodes A) = (s < length A \<and> (\<exists>b \<in> set (A ! s). b))"
  by (auto simp add: seed_nodes_def simp del: upt.simps)

lemma seed_nodes_mars_S0: "seed_nodes mars_S0 \<noteq> []"
proof -
  have "0 \<in> set (seed_nodes mars_S0)"
    using nodes_positive by (simp add: seed_nodes_member length_mars_S0 mars_S0_row)
  then show ?thesis by auto
qed

lemma neighbor_mars_origin: "neighbor mars_world_shape 0 STAY = Some 0"
  using nodes_positive by (rule neighbor_stay)

lemma marked_empty: "(marked A = []) = (\<not> np_any A)"
proof -
  have "(marked A = []) = (\<forall>s < length A. \<forall>a < length (A ! s). \<not> A ! s ! a)"
    by (auto simp add: marked_def filter_empty_conv simp del: upt.simps)
  also have "\<dots> = (\<not> np_any A)"
    by (auto simp add: np_any_def Ball_def Bex_def in_set_conv_nth)
  finally show ?thesis .
qed

lemma target_sample_fails: "(target_sample e x = Inl er) = (er = EmptyFrontier \<and> \<not> np_any (G x))"
  by (auto simp add: target_sample_def marked_empty [symmetric] split: list.splits)

lemma exploration_loop_add:
  "exploration_loop e (j + m) x =
     (case exploration_loop e j x of Inl er \<Rightarrow> Inl er | Inr xj \<Rightarrow> exploration_loop e m xj)"
  by (induction j arbitrary: x) (auto split: sum.splits)

lemma np_any_array_of:
  "np_any (array_of shape P) = (\<exists>s < fst shape * snd shape. \<exists>a < 5. P (s, a))"
  by (auto simp add: np_any_def array_of_def Bex_def simp del: upt.simps)

lemma update_sets_example_world:
  "update_sets e example_world =
     Inr (example_world
           \<lparr>S := array_of mars_world_shape (in_S e example_world),
            S_hat := array_of mars_world_shape (in_S_hat e example_world),
            G := array_of mars_world_shape
                   (expanders e example_gp (array_of mars_world_shape (in_S e example_world))
                      (array_of mars_world_shape (in_S_hat e example_world)))\<rparr>)"
proof -
  have sel: "S_hat0 example_world = mars_S0" "world_shape example_world = mars_world_shape"
    "gp example_world = example_gp"
    by (simp_all add: example_world_def)
  show ?thesis
    by (simp add: update_sets_def Let_def sel seed_nodes_mars_S0)
qed

lemma update_sets_fields:
  assumes "update_sets e x = Inr x1"
  shows "gp x1 = gp x" and "world_shape x1 = world_shape x" and "S_hat0 x1 = S_hat0 x"
    and "S x1 = array_of (world_shape x) (in_S e x)"
    and "S_hat x1 = array_of (world_shape x) (in_S_hat e x)"
    and "G x1 = array_of (world_shape x) (expanders e (gp x) (S x1) (S_hat x1))"
  using assms by (auto simp add: update_sets_def Let_def split: if_splits)

lemma add_observation_appends:
  assumes "add_observation e x s a = Inr x'"
  shows "\<exists>s'. neighbor (world_shape x) s a = Some s'
              \<and> X (gp x') = X (gp x) @ [Edge s a s']
              \<and> Y (gp x') = Y (gp x) @ [sensor e x s a s']"
  using assms by (auto simp add: add_observation_def set_XY_def split: option.splits)

lemma exploration_loop_last:
  "exploration_loop e (Suc t) x =
     (case exploration_loop e t x of Inl er \<Rightarrow> Inl er | Inr xt \<Rightarrow> exploration_loop e (Suc 0) xt)"
  using exploration_loop_add [of e t "Suc 0" x] by simp

lemma exploration_loop_training_data:
  "exploration_loop e t x = Inr xt
   \<Longrightarrow> \<exists>obs vals. length obs = t \<and> length vals = t
         \<and> X (gp xt) = X (gp x) @ obs \<and> Y (gp xt) = Y (gp x) @ vals"
proof (induction t arbitrary: x)
  case 0
  then show ?case by simp
next
  case (Suc t)
  from Suc.prems obtain x1 sample x2 where
    u: "update_sets e x = Inr x1" and ts: "target_sample e x1 = Inr sample"
    and ao: "add_observation e x1 (fst sample) (snd sample) = Inr x2"
    and rest: "exploration_loop e t x2 = Inr xt"
    by (auto split: sum.splits)
  from add_observation_appends [OF ao] update_sets_fields(1) [OF u]
  obtain s' where x2: "X (gp x2) = X (gp x) @ [Edge (fst sample) (snd sample) s']"
    "Y (gp x2) = Y (gp x) @ [sensor e x1 (fst sample) (snd sample) s']"
    by auto
  from Suc.IH [OF rest] obtain obs vals where
    o: "length obs = t" "length vals = t" "X (gp xt) = X (gp x2) @ obs" "Y (gp xt) = Y (gp x2) @ vals"
    by blast
  let ?obs = "Edge (fst sample) (snd sample) s' # obs"
  let ?vals = "sensor e x1 (fst sample) (snd sample) s' # vals"
  have "length ?obs = Suc t \<and> length ?vals = Suc t
        \<and> X (gp xt) = X (gp x) @ ?obs \<and> Y (gp xt) = Y (gp x) @ ?vals"
    using o x2 by simp
  then show ?case by blast
qed

lemma certified_same_belief:
  assumes "same_belief x y" and "certified e x t I"
  shows "certified e y t I"
  using assms(2)
proof (induction rule: certified.induct)
  case (direct t mean var)
  with assms(1) have "t \<in> set (transitions (world_shape y))" "predict e (gp y) t = (mean, var)"
    "classify mean var (beta y) (h y) = SAFE"
    by (simp_all add: same_belief_def)
  from certified.direct [OF this] assms(1) show ?case
    by (simp add: same_belief_def)
next
  case (propagated t I t' d)
  with assms(1) have "certified e y t I" "(t', d) \<in> set (geometric_neighbors e t)"
    "t' \<in> set (transitions (world_shape y))"
    "classify_interval (propagate I d (L y)) (h y) = SAFE"
    by (simp_all add: same_belief_def)
  from certified.propagated [OF this] assms(1) show ?case
    by (simp add: same_belief_def)
qed

lemma same_belief_sym: "same_belief x y \<Longrightarrow> same_belief y x"
  by (simp add: same_belief_def)

lemma in_S_same_belief:
  assumes "same_belief x y"
  shows "in_S e y = in_S e x"
proof -
  have "in_S e v t" if "same_belief u v" "in_S e u t" for u v t
    using that(2)
  proof (cases rule: in_S.cases)
    case (stay s)
    with that(1) show ?thesis
      by (auto simp add: same_belief_def intro: in_S.stay)
  next
    case (by_certificate I)
    from certified_same_belief [OF that(1) this] show ?thesis
      by (rule in_S.by_certificate)
  qed
  from this [OF assms] this [OF same_belief_sym [OF assms]] show ?thesis
    by blast
qed

lemma in_S_hat_same_belief:
  assumes "same_belief x y"
  shows "in_S_hat e y = in_S_hat e x"
proof -
  from assms have "world_shape y = world_shape x" "S_hat0 y = S_hat0 x"
    by (simp_all add: same_belief_def)
  then show ?thesis
    by (simp add: in_S_hat_def in_S_same_belief [OF assms])
qed

lemma update_sets_same_belief:
  assumes "same_belief x y" and "update_sets e x = Inr x1"
  shows "\<exists>y1. update_sets e y = Inr y1 \<and> S y1 = S x1 \<and> S_hat y1 = S_hat x1 \<and> G y1 = G x1"
proof -
  from assms(1) have eq: "gp y = gp x" "world_shape y = world_shape x" "S_hat0 y = S_hat0 x"
    by (simp_all add: same_belief_def)
  from assms(2) have "seed_nodes (S_hat0 x) \<noteq> []"
    by (auto simp add: update_sets_def split: if_splits)
  then obtain y1 where y1: "update_sets e y = Inr y1"
    by (simp add: update_sets_def Let_def eq)
  from update_sets_fields [OF y1] update_sets_fields [OF assms(2)]
  have "S y1 = S x1 \<and> S_hat y1 = S_hat x1 \<and> G y1 = G x1"
    by (simp add: eq in_S_same_belief [OF assms(1)] in_S_hat_same_belief [OF assms(1)])
  with y1 show ?thesis by blast
qed

lemma set_marked: "set (marked A) = {t. entry A (fst t) (snd t)}"
  by (auto simp add: marked_def entry_def simp del: upt.simps)

lemma foldl_choice_member: "foldl (\<lambda>best c. if P best c then c else best) t ts \<in> set (t # ts)"
  by (induction ts arbitrary: t) auto

lemma target_sample_member:
  assumes "target_sample e x = Inr sample"
  shows "entry (G x) (fst sample) (snd sample)"
proof -
  from assms obtain t ts where m: "marked (G x) = t # ts"
    and "sample = foldl (\<lambda>best c. if snd (predict e (gp x) best) < snd (predict e (gp x) c)
                                     then c else best) t ts"
    by (auto simp add: target_sample_def split: list.splits)
  then have "sample \<in> set (marked (G x))"
    using foldl_choice_member [of "\<lambda>best c. snd (predict e (gp x) best) < snd (predict e (gp x) c)" t ts]
    by simp
  then show ?thesis by (simp add: set_marked)
qed

lemma target_sample_succeeds:
  assumes "np_any (G x)"
  shows "\<exists>sample. target_sample e x = Inr sample"
proof (cases "target_sample e x")
  case (Inl er)
  with assms show ?thesis by (simp add: target_sample_fails)
next
  case (Inr sample)
  then show ?thesis by blast
qed

lemma example_iteration:
  assumes "world_shape x = mars_world_shape" and "seed_nodes (S_hat0 x) \<noteq> []"
  shows "\<exists>x1 x2. update_sets example_env x = Inr x1
           \<and> target_sample example_env x1 = Inr (0, 0)
           \<and> add_observation example_env x1 0 0 = Inr x2
           \<and> exploration_loop example_env (Suc 0) x = Inr x2
           \<and> world_shape x2 = mars_world_shape \<and> S_hat0 x2 = S_hat0 x
           \<and> S_hat x2 = array_of mars_world_shape (in_S_hat example_env x)"
proof -
  from assms(2) obtain x1 where u: "update_sets example_env x = Inr x1"
    by (simp add: update_sets_def Let_def)
  note f = update_sets_fields [OF u]
  have g: "G x1 = array_of mars_world_shape (\<lambda>t. t = (0, 0))"
    using f(6) by (simp add: assms(1) example_env_def)
  have "np_any (G x1)"
    unfolding g np_any_array_of using nodes_positive by auto
  from target_sample_succeeds [OF this] obtain sample where
    ts: "target_sample example_env x1 = Inr sample" by blast
  from target_sample_member [OF ts] have "sample = (0, 0)"
    by (simp add: g entry_array_of prod_eq_iff)
  with ts have ts0: "target_sample example_env x1 = Inr (0, 0)" by simp
  have nb: "neighbor (world_shape x1) 0 0 = Some 0"
    using neighbor_mars_origin by (simp add: f(2) assms(1) STAY_def)
  then obtain x2 where ao: "add_observation example_env x1 0 0 = Inr x2"
    and x2: "world_shape x2 = world_shape x1" "S_hat0 x2 = S_hat0 x1" "S_hat x2 = S_hat x1"
    by (simp add: add_observation_def)
  have "exploration_loop example_env (Suc 0) x = Inr x2"
    using u ts0 ao by simp
  with u ts0 ao x2 f show ?thesis
    by (simp add: assms(1))
qed

lemma example_loop:
  assumes "world_shape x = mars_world_shape" and "seed_nodes (S_hat0 x) \<noteq> []"
  shows "\<exists>x'. exploration_loop example_env n x = Inr x'
           \<and> world_shape x' = mars_world_shape \<and> S_hat0 x' = S_hat0 x
           \<and> (0 < n \<longrightarrow> shape_of (S_hat x') = replicate (fst mars_world_shape * snd mars_world_shape) 5)"
  using assms
proof (induction n arbitrary: x)
  case 0
  then show ?case by simp
next
  case (Suc n)
  from example_iteration [OF Suc.prems] obtain x2 where
    one: "exploration_loop example_env (Suc 0) x = Inr x2"
    and x2: "world_shape x2 = mars_world_shape" "S_hat0 x2 = S_hat0 x"
    "S_hat x2 = array_of mars_world_shape (in_S_hat example_env x)"
    by blast
  from Suc.prems(2) x2(2) have "seed_nodes (S_hat0 x2) \<noteq> []" by simp
  from Suc.IH [OF x2(1) this] obtain x' where
    x': "exploration_loop example_env n x2 = Inr x'" "world_shape x' = mars_world_shape"
    "S_hat0 x' = S_hat0 x2"
    "0 < n \<longrightarrow> shape_of (S_hat x') = replicate (fst mars_world_shape * snd mars_world_shape) 5"
    by blast
  have run: "exploration_loop example_env (Suc n) x = Inr x'"
    using exploration_loop_add [of example_env "Suc 0" n x] one x'(1) by simp
  have "shape_of (S_hat x') = replicate (fst mars_world_shape * snd mars_world_shape) 5"
  proof (cases n)
    case 0
    with x'(1) have "x' = x2" by simp
    with x2(3) show ?thesis by (simp add: shape_of_array_of)
  next
    case (Suc m)
    with x'(4) show ?thesis by simp
  qed
  with run x'(2,3) x2(2) show ?case by simp
qed

lemma example_world_fields:
  "world_shape example_world = mars_world_shape" "S_hat0 example_world = mars_S0"
  "gp example_world = example_gp" "S example_world = mars_S0" "S_hat example_world = mars_S0"
  by (simp_all add: example_world_def)

lemma apply_operation_data:
  assumes "apply_operation e x op = Inr x'" and "\<not> is_reset op"
  shows "X (gp x') = X (gp x) @ observed (world_shape x) [op]
         \<and> (\<exists>vals. length vals = length (observed (world_shape x) [op])
                    \<and> Y (gp x') = Y (gp x) @ vals)"
proof (cases op)
  case Update_sets
  with assms(1) show ?thesis
    by (simp add: update_sets_fields(1))
next
  case Target_sample
  with assms(1) show ?thesis
    by (auto split: sum.splits)
next
  case (Add_observation s a)
  with assms(1) have "add_observation e x s a = Inr x'" by simp
  from add_observation_appends [OF this] Add_observation show ?thesis
    by auto
next
  case (Set_XY xs ys)
  with assms(2) show ?thesis by simp
qed

lemma observed_Cons: "observed shape (op # ops) = observed shape [op] @ observed shape ops"
  by (cases op) simp_all

lemma run_operations_data:
  assumes "run_operations e x ops = Inr x'" and "\<forall>op \<in> set ops. \<not> is_reset op"
  shows "X (gp x') = X (gp x) @ observed (world_shape x) ops
         \<and> (\<exists>vals. length vals = length (observed (world_shape x) ops)
                    \<and> Y (gp x') = Y (gp x) @ vals)"
  using assms
proof (induction ops arbitrary: x)
  case Nil
  then show ?case by simp
next
  case (Cons op ops)
  from Cons.prems(1) obtain x1 where
    a: "apply_operation e x op = Inr x1" and r: "run_operations e x1 ops = Inr x'"
    by (auto split: sum.splits)
  from Cons.prems(2) have nr: "\<not> is_reset op" "\<forall>op \<in> set ops. \<not> is_reset op"
    by simp_all
  from apply_operation_data [OF a nr(1)] obtain v1 where
    s1: "X (gp x1) = X (gp x) @ observed (world_shape x) [op]"
    "length v1 = length (observed (world_shape x) [op])" "Y (gp x1) = Y (gp x) @ v1"
    by blast
  from Cons.IH [OF r nr(2)] apply_operation_shape [OF a] obtain v2 where
    s2: "X (gp x') = X (gp x1) @ observed (world_shape x) ops"
    "length v2 = length (observed (world_shape x) ops)" "Y (gp x') = Y (gp x1) @ v2"
    by auto
  have "X (gp x') = X (gp x) @ observed (world_shape x) (op # ops)"
    using s1(1) s2(1) observed_Cons [of "world_shape x" op ops] by simp
  moreover have "length (v1 @ v2) = length (observed (world_shape x) (op # ops))
                 \<and> Y (gp x') = Y (gp x) @ (v1 @ v2)"
    using s1(2,3) s2(2,3) observed_Cons [of "world_shape x" op ops] by simp
  ultimately show ?case by blast
qed

lemma insert_loop_data:
  "insert_loop e n s acts k x = Inr (x', k')
   \<Longrightarrow> \<exists>obs vals. length obs = n \<and> length vals = n
         \<and> X (gp x') = X (gp x) @ obs \<and> Y (gp x') = Y (gp x) @ vals"
proof (induction n arbitrary: k x)
  case 0
  then show ?case by simp
next
  case (Suc n)
  from Suc.prems obtain a k1 x1 where
    ao: "add_observation e x s a = Inr x1"
    and rest: "insert_loop e n s acts k1 x1 = Inr (x', k')"
    by (auto split: sum.splits prod.splits)
  from add_observation_appends [OF ao] obtain s' where
    x1: "X (gp x1) = X (gp x) @ [Edge s a s']" "Y (gp x1) = Y (gp x) @ [sensor e x s a s']"
    by blast
  from Suc.IH [OF rest] obtain obs vals where
    o: "length obs = n" "length vals = n" "X (gp x') = X (gp x1) @ obs"
    "Y (gp x') = Y (gp x1) @ vals"
    by blast
  have "length (Edge s a s' # obs) = Suc n \<and> length (sensor e x s a s' # vals) = Suc n
        \<and> X (gp x') = X (gp x) @ (Edge s a s' # obs)
        \<and> Y (gp x') = Y (gp x) @ (sensor e x s a s' # vals)"
    using o x1 by simp
  then show ?case by blast
qed

lemma explore_data:
  assumes "explore e alts s_hat0 x0 y0 len sigma_n k = Inr (xe, k')"
    and "length x0 = n_samples" and "length y0 = n_samples"
  shows "\<exists>xi x1 inserted sampled.
            insert_samples e k xi = Inr (x1, k')
          \<and> X (gp xi) = x0 \<and> X (gp x1) = x0 @ inserted \<and> length inserted = 10
          \<and> X (gp (remove_samples x1)) = inserted
          \<and> exploration_loop e 50 (remove_samples x1) = Inr xe
          \<and> X (gp xe) = inserted @ sampled \<and> length sampled = 50
          \<and> length (Y (gp xe)) = 60"
proof -
  let ?g = "\<lparr>X = x0, Y = y0, lengthscale = len, kernel_variance = 144, noise_variance = sigma_n ^ 2\<rparr>"
  from assms(1) obtain xi x1 where
    i: "GridWorld_init ?g mars_world_shape mars_step_size mars_beta alts mars_h mars_S0 s_hat0 mars_L = Inr xi"
    and ins: "insert_samples e k xi = Inr (x1, k')"
    and lp: "exploration_loop e 50 (remove_samples x1) = Inr xe"
    by (auto simp add: explore_def split: sum.splits prod.splits)
  from i have gi: "X (gp xi) = x0" "Y (gp xi) = y0"
    by (auto simp add: GridWorld_init_def split: if_splits)
  from ins obtain s acts k1 where "insert_loop e 10 s acts k1 xi = Inr (x1, k')"
    by (auto simp add: insert_samples_def split: if_splits sum.splits prod.splits)
  from insert_loop_data [OF this] gi obtain inserted vi where
    d1: "length inserted = 10" "length vi = 10" "X (gp x1) = x0 @ inserted" "Y (gp x1) = y0 @ vi"
    by auto
  have r: "X (gp (remove_samples x1)) = inserted" "Y (gp (remove_samples x1)) = vi"
    using d1(3,4) assms(2,3) by (simp_all add: remove_samples_def set_XY_def)
  from exploration_loop_training_data [OF lp] r obtain sampled vs where
    d2: "length sampled = 50" "length vs = 50" "X (gp xe) = inserted @ sampled"
    "Y (gp xe) = vi @ vs"
    by auto
  have "length (Y (gp xe)) = 60"
    using d1(2) d2(2,4) by simp
  with ins gi(1) d1(1,3) r(1) lp d2(1,3) show ?thesis
    by blast
qed

lemma choice_result:
  assumes "choice e k xs = Inr (v, k')"
  shows "v \<in> set xs \<and> k' = Suc k"
  using assms by (auto simp add: choice_def split: if_splits)

lemma choice_succeeds: "xs \<noteq> [] \<Longrightarrow> \<exists>v. choice e k xs = Inr (v, Suc k)"
  by (simp add: choice_def)

lemma upt_0_5: "[0..<5] = [0, 1, 2, 3, 4]"
  by code_simp

lemma upt_1_5: "[Suc 0..<5] = [1, 2, 3, 4]"
  by code_simp

lemma array_of_row:
  "s < fst shape * snd shape \<Longrightarrow> array_of shape P ! s = map (\<lambda>a. P (s, a)) [0..<5]"
  by (simp add: array_of_def del: upt.simps)

lemma example_seed_row:
  "s < fst mars_world_shape * snd mars_world_shape
   \<Longrightarrow> example_seed ! s = map (\<lambda>a. s = 0 \<and> (a = 0 \<or> a = 2)) [0..<5]"
  by (auto simp add: example_seed_def array_of_row simp del: upt.simps)

lemma example_seed_row0: "example_seed ! 0 = [True, False, True, False, False]"
  using example_seed_row [OF nodes_positive] by (simp add: upt_0_5)

lemma example_seed_shape:
  "shape_of example_seed = replicate (fst mars_world_shape * snd mars_world_shape) 5"
  "length example_seed = fst mars_world_shape * snd mars_world_shape"
  by (simp_all add: example_seed_def shape_of_array_of length_array_of)

lemma example_seed_nodes: "seed_nodes example_seed \<noteq> []"
proof -
  have "0 \<in> set (seed_nodes example_seed)"
    using nodes_positive by (simp add: seed_nodes_member example_seed_shape example_seed_row0)
  then show ?thesis by auto
qed

lemma example_directional_nodes:
  "set (filter (\<lambda>s. \<exists>b \<in> set (drop 1 (example_seed ! s)). b)
          [0..<fst mars_world_shape * snd mars_world_shape]) = {0}"
proof -
  have "(\<exists>b \<in> set (drop 1 (example_seed ! s)). b) = (s = 0)"
    if "s < fst mars_world_shape * snd mars_world_shape" for s
    using that by (cases "s = 0") (simp_all add: example_seed_row upt_0_5)
  then show ?thesis
    using nodes_positive by (auto simp del: upt.simps)
qed

lemma example_actions: "filter (\<lambda>a. example_seed ! 0 ! a) [Suc 0..<5] = [2]"
  unfolding example_seed_row0 upt_1_5 by simp

lemma neighbor_mars_down: "neighbor mars_world_shape 0 2 = Some 60"
  by (simp add: neighbor_def mars_world_shape_def STAY_def Let_def)

lemma example_insert_loop:
  assumes "world_shape x = mars_world_shape"
  shows "\<exists>x'. insert_loop example_env n 0 [2] k x = Inr (x', k + n)
           \<and> world_shape x' = mars_world_shape \<and> S_hat0 x' = S_hat0 x"
  using assms
proof (induction n arbitrary: k x)
  case 0
  then show ?case by simp
next
  case (Suc n)
  have c: "choice example_env k [2 :: nat] = Inr (2, Suc k)"
    by (simp add: choice_def)
  from Suc.prems obtain x1 where ao: "add_observation example_env x 0 2 = Inr x1"
    and x1: "world_shape x1 = mars_world_shape" "S_hat0 x1 = S_hat0 x"
    by (simp add: add_observation_def neighbor_mars_down)
  from Suc.IH [OF x1(1), of "Suc k"] obtain x' where
    "insert_loop example_env n 0 [2] (Suc k) x1 = Inr (x', Suc k + n)"
    "world_shape x' = mars_world_shape" "S_hat0 x' = S_hat0 x1"
    by blast
  with c ao x1(2) show ?case by simp
qed

lemma length_coord_of: "length (coord_of x) = fst (world_shape x) * snd (world_shape x)"
  by (simp add: coord_of_def grid_coord_def)

lemma example_insert_samples:
  assumes "world_shape x = mars_world_shape" and "S x = mars_S0" and "S_hat x = example_seed"
  shows "\<exists>x'. insert_samples example_env k x = Inr (x', k + 11)
           \<and> world_shape x' = mars_world_shape \<and> S_hat0 x' = S_hat0 x"
proof -
  let ?n = "fst mars_world_shape * snd mars_world_shape"
  let ?nodes = "filter (\<lambda>s. \<exists>b \<in> set (drop 1 (example_seed ! s)). b) [0..<?n]"
  have cols: "length (S x ! 0) = 5"
    using mars_S0_row [OF nodes_positive] by (simp add: assms(2))
  have shape: "length (S_hat x) = length (coord_of x)" "length (S_hat x ! 0) = 5"
    by (simp_all add: assms(1,3) length_coord_of example_seed_shape example_seed_row0)
  have "?nodes \<noteq> []"
    using example_directional_nodes by (metis empty_set insert_not_empty)
  from choice_succeeds [OF this, of example_env k] obtain v where
    c: "choice example_env k ?nodes = Inr (v, Suc k)" by blast
  from choice_result [OF c] have "v \<in> set ?nodes" ..
  then have v: "v = 0"
    unfolding example_directional_nodes by (rule singletonD)
  from example_insert_loop [OF assms(1), of 10 "Suc k"] obtain x' where
    l: "insert_loop example_env 10 0 [2] (Suc k) x = Inr (x', Suc k + 10)"
    and x': "world_shape x' = mars_world_shape" "S_hat0 x' = S_hat0 x"
    by blast
  have "insert_samples example_env k x = Inr (x', k + 11)"
    unfolding insert_samples_def
    using shape c v l
    by (simp add: length_coord_of assms(1,3) cols example_actions example_seed_shape
        del: insert_loop.simps)
  with x' show ?thesis by blast
qed

lemma remove_samples_fields:
  "world_shape (remove_samples x) = world_shape x" "S_hat0 (remove_samples x) = S_hat0 x"
  by (simp_all add: remove_samples_def)

lemma example_explore:
  "\<exists>xe. explore example_env alts example_seed x0 y0 len sigma_n k = Inr (xe, k + 11)
     \<and> world_shape xe = mars_world_shape
     \<and> shape_of (S_hat xe) = replicate (fst mars_world_shape * snd mars_world_shape) 5"
proof -
  let ?g = "\<lparr>X = x0, Y = y0, lengthscale = len, kernel_variance = 144, noise_variance = sigma_n ^ 2\<rparr>"
  obtain xi where i: "GridWorld_init ?g mars_world_shape mars_step_size mars_beta alts mars_h
                        mars_S0 example_seed mars_L = Inr xi"
    and xi: "world_shape xi = mars_world_shape" "S xi = mars_S0" "S_hat xi = example_seed"
    "S_hat0 xi = example_seed"
    by (simp add: GridWorld_init_mars)
  from example_insert_samples [OF xi(1,2,3), of k] obtain x1 where
    ins: "insert_samples example_env k xi = Inr (x1, k + 11)"
    and x1: "world_shape x1 = mars_world_shape" "S_hat0 x1 = S_hat0 xi"
    by blast
  have "seed_nodes (S_hat0 (remove_samples x1)) \<noteq> []"
    by (simp add: remove_samples_fields x1(2) xi(4) example_seed_nodes)
  from example_loop [OF _ this, of 50] obtain xe where
    lp: "exploration_loop example_env 50 (remove_samples x1) = Inr xe"
    and xe: "world_shape xe = mars_world_shape"
    "shape_of (S_hat xe) = replicate (fst mars_world_shape * snd mars_world_shape) 5"
    by (auto simp add: remove_samples_fields x1(1))
  have "explore example_env alts example_seed x0 y0 len sigma_n k = Inr (xe, k + 11)"
    unfolding explore_def using i ins lp by (simp del: exploration_loop.simps)
  with xe show ?thesis by blast
qed

lemma entries_snoc:
  "{t. entry (A @ [r]) (fst t) (snd t)} =
     {t. entry A (fst t) (snd t)} \<union> (\<lambda>a. (length A, a)) ` {a. a < length r \<and> r ! a}"
  by (auto simp add: entry_def nth_append less_Suc_eq image_iff)

lemma finite_entries: "finite {t. entry A (fst t) (snd t)}"
proof (induction A rule: rev_induct)
  case Nil
  then show ?case by (simp add: entry_def)
next
  case (snoc r A)
  then show ?case by (simp add: entries_snoc)
qed

lemma count_row: "card {a. a < length r \<and> r ! a} = length (filter (\<lambda>b. b) r)"
  by (simp add: length_filter_conv_card)

lemma np_sum_card: "np_sum A = int (card {t. entry A (fst t) (snd t)})"
proof -
  have "card {t. entry A (fst t) (snd t)} = sum_list (map (\<lambda>row. length (filter (\<lambda>b. b) row)) A)"
  proof (induction A rule: rev_induct)
    case Nil
    then show ?case by (simp add: entry_def)
  next
    case (snoc r A)
    let ?new = "(\<lambda>a. (length A, a)) ` {a. a < length r \<and> r ! a}"
    have disj: "{t. entry A (fst t) (snd t)} \<inter> ?new = {}"
      by (auto simp add: entry_def)
    have "card ?new = card {a. a < length r \<and> r ! a}"
      by (rule card_image) (simp add: inj_on_def)
    then have new: "card ?new = length (filter (\<lambda>b. b) r)"
      by (simp add: count_row)
    have "card ({t. entry A (fst t) (snd t)} \<union> ?new) = card {t. entry A (fst t) (snd t)} + card ?new"
      by (rule card_Un_disjoint) (simp_all add: finite_entries disj)
    with snoc.IH new show ?case
      by (simp add: entries_snoc)
  qed
  then show ?thesis by (simp add: np_sum_def)
qed

lemma entry_logical_not:
  "entry (logical_not A) s a = (s < length A \<and> a < length (A ! s) \<and> \<not> A ! s ! a)"
  by (auto simp add: entry_def logical_not_def)

lemma shape_of_logical_not: "shape_of (logical_not A) = shape_of A"
  by (simp add: shape_of_def logical_not_def comp_def)

lemma shape_of_nth: "shape_of A = shape_of B \<Longrightarrow> s < length A \<Longrightarrow> length (A ! s) = length (B ! s)"
  by (metis length_map nth_map shape_of_def)

lemma shape_of_length: "shape_of A = shape_of B \<Longrightarrow> length A = length B"
  by (metis length_map shape_of_def)

lemma entry_logical_and:
  assumes "logical_and A B = Inr C"
  shows "entry C s a = (entry A s a \<and> entry B s a)"
proof -
  from assms have sh: "shape_of A = shape_of B" and C: "C = map2 (map2 (\<and>)) A B"
    by (auto simp add: logical_and_def split: if_splits)
  show ?thesis
    using shape_of_length [OF sh] shape_of_nth [OF sh]
    by (auto simp add: C entry_def)
qed

lemma difference_count:
  assumes "logical_and A (logical_not B) = Inr C"
  shows "np_sum C = int (card {t. entry A (fst t) (snd t) \<and> \<not> entry B (fst t) (snd t)})"
proof -
  from assms have sh: "shape_of A = shape_of B"
    by (auto simp add: logical_and_def shape_of_logical_not split: if_splits)
  have "entry C s a = (entry A s a \<and> \<not> entry B s a)" for s a
  proof -
    have "entry A s a \<Longrightarrow> entry (logical_not B) s a = (\<not> entry B s a)"
      unfolding entry_logical_not
      using shape_of_length [OF sh] shape_of_nth [OF sh, of s]
      by (auto simp add: entry_def)
    then show ?thesis
      unfolding entry_logical_and [OF assms] by blast
  qed
  then show ?thesis
    by (simp add: np_sum_card)
qed

lemma shaped_nth: "shaped M \<Longrightarrow> i < fst parameters_shape \<Longrightarrow> length (M ! i) = snd parameters_shape"
  by (simp add: shaped_def list_all_length)

lemma set_item_succeeds:
  assumes "shaped M" and "i < fst parameters_shape" and "j < snd parameters_shape"
  shows "set_item M i j v = Inr (M[i := (M ! i)[j := v]])"
  using assms shaped_nth [OF assms(1,2)] by (simp add: set_item_def shaped_def)

lemma set_item_result:
  assumes "set_item M i j v = Inr M'" and "shaped M"
  shows "shaped M'" and "M' ! i ! j = v"
    and "(i', j') \<noteq> (i, j) \<Longrightarrow> M' ! i' ! j' = M ! i' ! j'"
proof -
  from assms(1) have ij: "i < length M" "j < length (M ! i)" and M': "M' = M[i := (M ! i)[j := v]]"
    by (auto simp add: set_item_def split: if_splits)
  show "shaped M'"
    using assms(2) ij unfolding M' shaped_def list_all_length
    by (auto simp add: nth_list_update)
  show "M' ! i ! j = v"
    using ij by (simp add: M')
  show "M' ! i' ! j' = M ! i' ! j'" if "(i', j') \<noteq> (i, j)"
    using that ij unfolding M'
    by (cases "i' = i") (auto simp add: nth_list_update)
qed

lemma store_performance_result:
  assumes "store_performance e index_n index_l x st = Inr st'" and "well_shaped st"
  shows "well_shaped st'" and "rng st' = rng st"
    and "runs st' = runs st @ [(x, oracle_set e x)]"
    and "cell st' index_n index_l = scores x (oracle_set e x)"
    and "(i, j) \<noteq> (index_n, index_l) \<Longrightarrow> cell st' i j = cell st i j"
proof -
  let ?t = "oracle_set e x"
  from assms(1) obtain missed wrong m1 m2 m3 where
    missed: "logical_and ?t (logical_not (S_hat x)) = Inr missed"
    and wrong: "logical_and (S_hat x) (logical_not ?t) = Inr wrong"
    and m1: "set_item (size_S_hat st) index_n index_l (np_sum (S_hat x)) = Inr m1"
    and m2: "set_item (true_S_hat_minus_S_hat st) index_n index_l (np_sum missed) = Inr m2"
    and m3: "set_item (S_hat_minus_true_S_hat st) index_n index_l (np_sum wrong) = Inr m3"
    and st': "st' = st\<lparr>size_S_hat := m1, true_S_hat_minus_S_hat := m2,
                         S_hat_minus_true_S_hat := m3, runs := runs st @ [(x, ?t)]\<rparr>"
    by (auto simp add: store_performance_def oracle_set_def Let_def split: sum.splits)
  from assms(2) have sh: "shaped (size_S_hat st)" "shaped (true_S_hat_minus_S_hat st)"
    "shaped (S_hat_minus_true_S_hat st)"
    by (simp_all add: well_shaped_def)
  show "well_shaped st'"
    using set_item_result(1) [OF m1 sh(1)] set_item_result(1) [OF m2 sh(2)]
      set_item_result(1) [OF m3 sh(3)]
    by (simp add: st' well_shaped_def)
  show "rng st' = rng st" and "runs st' = runs st @ [(x, ?t)]"
    by (simp_all add: st')
  show "cell st' index_n index_l = scores x ?t"
    using set_item_result(2) [OF m1 sh(1)] set_item_result(2) [OF m2 sh(2)]
      set_item_result(2) [OF m3 sh(3)]
    by (simp add: st' cell_def scores_def np_sum_card [of "S_hat x"]
        difference_count [OF missed] difference_count [OF wrong])
  show "cell st' i j = cell st i j" if "(i, j) \<noteq> (index_n, index_l)"
    using set_item_result(3) [OF m1 sh(1) that] set_item_result(3) [OF m2 sh(2) that]
      set_item_result(3) [OF m3 sh(3) that]
    by (simp add: st' cell_def)
qed

lemma apply_operation_hyper:
  assumes "apply_operation e x op = Inr x'"
  shows "lengthscale (gp x') = lengthscale (gp x) \<and> noise_variance (gp x') = noise_variance (gp x)"
  using assms
  by (cases op)
    (auto simp add: update_sets_def add_observation_def set_XY_def Let_def
      split: if_splits sum.splits option.splits)

lemma run_operations_hyper:
  "run_operations e x ops = Inr x'
   \<Longrightarrow> lengthscale (gp x') = lengthscale (gp x) \<and> noise_variance (gp x') = noise_variance (gp x)"
proof (induction ops arbitrary: x)
  case Nil
  then show ?case by simp
next
  case (Cons op ops)
  from Cons.prems obtain x1 where a: "apply_operation e x op = Inr x1"
    and r: "run_operations e x1 ops = Inr x'"
    by (auto split: sum.splits)
  from Cons.IH [OF r] apply_operation_hyper [OF a] show ?case by simp
qed

lemma explore_hyper:
  assumes "explore e alts s_hat0 x0 y0 len sigma_n k = Inr (x, k')"
  shows "lengthscale (gp x) = len \<and> noise_variance (gp x) = sigma_n ^ 2"
proof -
  from explore_run [OF assms] obtain xi ops where
    i: "GridWorld_init \<lparr>X = x0, Y = y0, lengthscale = len, kernel_variance = 144,
                        noise_variance = sigma_n ^ 2\<rparr>
          mars_world_shape mars_step_size mars_beta alts mars_h mars_S0 s_hat0 mars_L = Inr xi"
    and r: "run_operations e xi ops = Inr x"
    by blast
  from i have "lengthscale (gp xi) = len \<and> noise_variance (gp xi) = sigma_n ^ 2"
    by (auto simp add: GridWorld_init_def split: if_splits)
  with run_operations_hyper [OF r] show ?thesis by simp
qed

lemma run_combination_result:
  assumes "run_combination e alts s_hat0 x0 y0 index_l index_n st = Inr st'"
    and "well_shaped st"
  shows "\<exists>x. explore e alts s_hat0 x0 y0 (lengthScale ! index_l) (noise ! index_n) (rng st)
               = Inr (x, rng st')
           \<and> runs st' = runs st @ [(x, oracle_set e x)]
           \<and> cell st' index_n index_l = scores x (oracle_set e x)
           \<and> lengthscale (gp x) = lengthScale ! index_l
           \<and> noise_variance (gp x) = (noise ! index_n) ^ 2"
    and "well_shaped st'"
    and "(i, j) \<noteq> (index_n, index_l) \<Longrightarrow> cell st' i j = cell st i j"
proof -
  from assms(1) obtain x k where
    ex: "explore e alts s_hat0 x0 y0 (lengthScale ! index_l) (noise ! index_n) (rng st) = Inr (x, k)"
    and sp: "store_performance e index_n index_l x (st\<lparr>rng := k\<rparr>) = Inr st'"
    by (auto simp add: run_combination_def split: sum.splits prod.splits)
  have ws: "well_shaped (st\<lparr>rng := k\<rparr>)"
    using assms(2) by (simp add: well_shaped_def)
  note r = store_performance_result [OF sp ws]
  from r(2) have k: "rng st' = k" by simp
  show "well_shaped st'" by (rule r(1))
  show "cell st' i j = cell st i j" if "(i, j) \<noteq> (index_n, index_l)"
    using r(5) [OF that] by (simp add: cell_def)
  show "\<exists>x. explore e alts s_hat0 x0 y0 (lengthScale ! index_l) (noise ! index_n) (rng st)
               = Inr (x, rng st')
           \<and> runs st' = runs st @ [(x, oracle_set e x)]
           \<and> cell st' index_n index_l = scores x (oracle_set e x)
           \<and> lengthscale (gp x) = lengthScale ! index_l
           \<and> noise_variance (gp x) = (noise ! index_n) ^ 2"
    using ex k r(3,4) explore_hyper [OF ex] by auto
qed

lemma sweep_result:
  assumes "sweep e alts s_hat0 x0 y0 cs st = Inr st'" and "well_shaped st" and "distinct cs"
  shows "well_shaped st'
       \<and> length (runs st') = length (runs st) + length cs
       \<and> (\<forall>i < length (runs st). runs st' ! i = runs st ! i)
       \<and> (\<forall>i < length cs. recorded e st' (fst (cs ! i)) (snd (cs ! i))
                               (runs st' ! (length (runs st) + i)))
       \<and> (\<forall>i j. (j, i) \<notin> set cs \<longrightarrow> cell st' i j = cell st i j)"
  using assms
proof (induction cs arbitrary: st)
  case Nil
  then show ?case by simp
next
  case (Cons c cs)
  from Cons.prems(1) obtain st1 where
    rc: "run_combination e alts s_hat0 x0 y0 (fst c) (snd c) st = Inr st1"
    and sw: "sweep e alts s_hat0 x0 y0 cs st1 = Inr st'"
    by (auto split: sum.splits)
  note r = run_combination_result [OF rc Cons.prems(2)]
  from r(1) obtain x where
    runs1: "runs st1 = runs st @ [(x, oracle_set e x)]"
    and cell1: "cell st1 (snd c) (fst c) = scores x (oracle_set e x)"
    and hyper: "lengthscale (gp x) = lengthScale ! fst c"
    "noise_variance (gp x) = (noise ! snd c) ^ 2"
    by blast
  from Cons.prems(3) have d: "distinct cs" "c \<notin> set cs" by simp_all
  from Cons.IH [OF sw r(2) d(1)] have
    ih: "well_shaped st'" "length (runs st') = length (runs st1) + length cs"
    "\<forall>i < length (runs st1). runs st' ! i = runs st1 ! i"
    "\<forall>i < length cs. recorded e st' (fst (cs ! i)) (snd (cs ! i))
                           (runs st' ! (length (runs st1) + i))"
    "\<forall>i j. (j, i) \<notin> set cs \<longrightarrow> cell st' i j = cell st1 i j"
    by blast+
  have len: "length (runs st') = length (runs st) + length (c # cs)"
    using ih(2) runs1 by simp
  have old: "\<forall>i < length (runs st). runs st' ! i = runs st ! i"
    using ih(3) runs1 by (simp add: nth_append)
  have first: "runs st' ! length (runs st) = (x, oracle_set e x)"
    using ih(3) runs1 by simp
  have keep: "cell st' (snd c) (fst c) = cell st1 (snd c) (fst c)"
    using ih(5) d(2) by simp
  have rec0: "recorded e st' (fst c) (snd c) (runs st' ! length (runs st))"
    using first keep cell1 hyper by (simp add: recorded_def)
  have recs: "recorded e st' (fst ((c # cs) ! i)) (snd ((c # cs) ! i))
                (runs st' ! (length (runs st) + i))" if "i < length (c # cs)" for i
  proof (cases i)
    case 0
    with rec0 show ?thesis by simp
  next
    case (Suc m)
    with that have "m < length cs" by simp
    with ih(4) have "recorded e st' (fst (cs ! m)) (snd (cs ! m)) (runs st' ! (length (runs st1) + m))"
      by blast
    with Suc runs1 show ?thesis by simp
  qed
  have frame: "cell st' i j = cell st i j" if "(j, i) \<notin> set (c # cs)" for i j
  proof -
    from that have "(j, i) \<notin> set cs" "(i, j) \<noteq> (snd c, fst c)" by auto
    with ih(5) r(3) [of i j] show ?thesis by simp
  qed
  from ih(1) len old recs frame show ?case by blast
qed

lemma length_linspace: "length (linspace a b num) = num"
  by (simp add: linspace_def)

lemma length_parameters: "length lengthScale = 4" "length noise = 3"
  by (simp_all add: lengthScale_def noise_def length_linspace)

lemma upt_0_3: "[0..<3] = [0, 1, 2]"
  by code_simp

lemma upt_0_4: "[0..<4] = [0, 1, 2, 3]"
  by code_simp

lemma combinations_list:
  "combinations = [(0, 0), (0, 1), (0, 2), (1, 0), (1, 1), (1, 2),
                   (2, 0), (2, 1), (2, 2), (3, 0), (3, 1), (3, 2)]"
  by (simp add: combinations_def length_parameters upt_0_3 upt_0_4)

lemma distinct_combinations: "distinct combinations"
  by (simp add: combinations_list)

lemma nth_combinations:
  assumes "index_l < 4" and "index_n < 3"
  shows "combinations ! (index_l * 3 + index_n) = (index_l, index_n)"
proof -
  from assms(1) have "index_l = 0 \<or> index_l = 1 \<or> index_l = 2 \<or> index_l = 3" by arith
  moreover from assms(2) have "index_n = 0 \<or> index_n = 1 \<or> index_n = 2" by arith
  ultimately show ?thesis
    by (elim disjE) (simp_all add: combinations_list)
qed

lemma shaped_np_empty: "shaped (np_empty junk parameters_shape)"
  by (simp add: shaped_def np_empty_def list_all_length del: upt.simps)

lemma mars_sweep:
  assumes "mars e alts s_hat0 junk = Inr st"
  shows "\<exists>ind k. choice e 0 [0..<length alts] = Inr (ind, k) \<and> ind < length coord
           \<and> sweep e alts s_hat0 [Coordinate (fst (coord ! ind)) (snd (coord ! ind))]
                [alts ! ind] combinations
                \<lparr>rng = k, size_S_hat = np_empty junk parameters_shape,
                 true_S_hat_minus_S_hat = np_empty junk parameters_shape,
                 S_hat_minus_true_S_hat = np_empty junk parameters_shape,
                 runs = []\<rparr> = Inr st"
  using assms
  by (auto simp add: mars_def simp del: sweep.simps split: sum.splits prod.splits if_splits)

lemma fst_parameters_shape: "fst parameters_shape = 3" "snd parameters_shape = 4"
  by (simp_all add: parameters_shape_def length_parameters)

lemma example_store_performance:
  assumes "well_shaped st" and "index_l < 4" and "index_n < 3"
    and "world_shape x = mars_world_shape"
    and "shape_of (S_hat x) = replicate (fst mars_world_shape * snd mars_world_shape) 5"
  shows "\<exists>st'. store_performance e index_n index_l x st = Inr st'"
proof -
  let ?t = "oracle_set e x"
  have sh: "shape_of ?t = shape_of (S_hat x)"
    by (simp add: oracle_set_def compute_true_S_hat_def shape_of_array_of assms(4,5))
  obtain missed where m: "logical_and ?t (logical_not (S_hat x)) = Inr missed"
    by (simp add: logical_and_def shape_of_logical_not sh)
  obtain wrong where w: "logical_and (S_hat x) (logical_not ?t) = Inr wrong"
    by (simp add: logical_and_def shape_of_logical_not sh)
  from assms(1) have s: "shaped (size_S_hat st)" "shaped (true_S_hat_minus_S_hat st)"
    "shaped (S_hat_minus_true_S_hat st)"
    by (simp_all add: well_shaped_def)
  have i: "index_n < fst parameters_shape" "index_l < snd parameters_shape"
    using assms(2,3) by (simp_all add: fst_parameters_shape)
  show ?thesis
    using m w set_item_succeeds [OF s(1) i] set_item_succeeds [OF s(2) i]
      set_item_succeeds [OF s(3) i]
    by (simp add: store_performance_def Let_def oracle_set_def [symmetric])
qed

lemma example_run_combination:
  assumes "well_shaped st" and "index_l < 4" and "index_n < 3"
  shows "\<exists>st'. run_combination example_env alts example_seed x0 y0 index_l index_n st = Inr st'"
proof -
  from example_explore [of alts x0 y0 "lengthScale ! index_l" "noise ! index_n" "rng st"]
  obtain xe where
    ex: "explore example_env alts example_seed x0 y0 (lengthScale ! index_l) (noise ! index_n)
           (rng st) = Inr (xe, rng st + 11)"
    and xe: "world_shape xe = mars_world_shape"
    "shape_of (S_hat xe) = replicate (fst mars_world_shape * snd mars_world_shape) 5"
    by blast
  have "well_shaped (st\<lparr>rng := rng st + 11\<rparr>)"
    using assms(1) by (simp add: well_shaped_def)
  from example_store_performance [OF this assms(2,3) xe, of example_env] ex show ?thesis
    by (simp add: run_combination_def)
qed

lemma example_sweep:
  assumes "well_shaped st" and "list_all (\<lambda>c. fst c < 4 \<and> snd c < 3) cs"
  shows "\<exists>st'. sweep example_env alts example_seed x0 y0 cs st = Inr st'"
  using assms
proof (induction cs arbitrary: st)
  case Nil
  then show ?case by simp
next
  case (Cons c cs)
  from Cons.prems(2) have c: "fst c < 4" "snd c < 3" and cs: "list_all (\<lambda>c. fst c < 4 \<and> snd c < 3) cs"
    by simp_all
  from example_run_combination [OF Cons.prems(1) c] obtain st1 where
    rc: "run_combination example_env alts example_seed x0 y0 (fst c) (snd c) st = Inr st1"
    by blast
  from run_combination_result(2) [OF rc Cons.prems(1)] have "well_shaped st1" .
  from Cons.IH [OF this cs] rc show ?case by simp
qed

lemma length_coord: "length coord = fst mars_world_shape * snd mars_world_shape"
  by (simp add: coord_def grid_coord_def)

lemma example_mars: "\<exists>st. mars example_env flat_altitudes example_seed junk = Inr st"
proof -
  let ?n = "fst mars_world_shape * snd mars_world_shape"
  have "[0..<length flat_altitudes] \<noteq> []"
    using nodes_positive by (simp add: flat_altitudes_def)
  from choice_succeeds [OF this, of example_env 0] obtain ind where
    c: "choice example_env 0 [0..<length flat_altitudes] = Inr (ind, Suc 0)" by blast
  from choice_result [OF c] have ind: "ind < length coord"
    by (simp add: flat_altitudes_def length_coord)
  let ?st0 = "\<lparr>rng = Suc 0, size_S_hat = np_empty junk parameters_shape,
               true_S_hat_minus_S_hat = np_empty junk parameters_shape,
               S_hat_minus_true_S_hat = np_empty junk parameters_shape,
               runs = []\<rparr>"
  have ws: "well_shaped ?st0"
    by (simp add: well_shaped_def shaped_np_empty)
  have all: "list_all (\<lambda>c. fst c < 4 \<and> snd c < 3) combinations"
    by (simp add: combinations_list)
  from example_sweep [OF ws all] obtain st where
    "sweep example_env flat_altitudes example_seed
       [Coordinate (fst (coord ! ind)) (snd (coord ! ind))] [flat_altitudes ! ind]
       combinations ?st0 = Inr st"
    by blast
  with c ind show ?thesis
    by (auto simp add: mars_def simp del: sweep.simps)
qed

lemma certified_same_online:
  assumes "same_online e e'" and "certified e x t I"
  shows "certified e' x t I"
  using assms(2)
proof (induction rule: certified.induct)
  case (direct t mean var)
  with assms(1) have "predict e' (gp x) t = (mean, var)"
    by (simp add: same_online_def)
  from certified.direct [OF direct(1) this direct(3)] show ?case .
next
  case (propagated t I t' d)
  with assms(1) have "(t', d) \<in> set (geometric_neighbors e' t)"
    by (simp add: same_online_def)
  from certified.propagated [OF propagated(5) this propagated(3,4)] show ?case .
qed

lemma same_online_sym: "same_online e e' \<Longrightarrow> same_online e' e"
  by (simp add: same_online_def)

lemma in_S_same_online:
  assumes "same_online e e'"
  shows "in_S e' x = in_S e x"
proof -
  have "in_S b x t" if "same_online a b" "in_S a x t" for a b t
    using that(2)
  proof (cases rule: in_S.cases)
    case (stay s)
    then show ?thesis by (auto intro: in_S.stay)
  next
    case (by_certificate I)
    from certified_same_online [OF that(1) this] show ?thesis
      by (rule in_S.by_certificate)
  qed
  from this [OF assms] this [OF same_online_sym [OF assms]] show ?thesis
    by blast
qed

lemma update_sets_same_online:
  assumes "same_online e e'"
  shows "update_sets e' x = update_sets e x"
proof -
  from assms have "expanders e' = expanders e" by (simp add: same_online_def)
  then show ?thesis
    by (simp add: update_sets_def in_S_hat_def in_S_same_online [OF assms])
qed

lemma target_sample_same_online:
  "same_online e e' \<Longrightarrow> target_sample e' x = target_sample e x"
  by (simp add: target_sample_def same_online_def cong: list.case_cong)

lemma add_observation_same_online:
  "same_online e e' \<Longrightarrow> add_observation e' x s a = add_observation e x s a"
  by (simp add: add_observation_def same_online_def cong: option.case_cong)

lemma choice_same_online: "same_online e e' \<Longrightarrow> choice e' k xs = choice e k xs"
  by (simp add: choice_def same_online_def)

lemma exploration_loop_same_online:
  assumes "same_online e e'"
  shows "exploration_loop e' n x = exploration_loop e n x"
  by (induction n arbitrary: x)
    (simp_all add: update_sets_same_online [OF assms] target_sample_same_online [OF assms]
      add_observation_same_online [OF assms] split: sum.splits)

lemma insert_loop_same_online:
  assumes "same_online e e'"
  shows "insert_loop e' n s acts k x = insert_loop e n s acts k x"
  by (induction n arbitrary: k x)
    (simp_all add: choice_same_online [OF assms] add_observation_same_online [OF assms]
      split: sum.splits prod.splits)

lemma explore_same_online:
  assumes "same_online e e'"
  shows "explore e' alts s_hat0 x0 y0 len sigma_n k = explore e alts s_hat0 x0 y0 len sigma_n k"
  by (simp add: explore_def insert_samples_def choice_same_online [OF assms]
      insert_loop_same_online [OF assms] exploration_loop_same_online [OF assms]
      del: exploration_loop.simps insert_loop.simps cong: sum.case_cong prod.case_cong if_cong)

lemma explore_all_same_online:
  assumes "same_online e e'"
  shows "explore_all e' alts s_hat0 x0 y0 cs k = explore_all e alts s_hat0 x0 y0 cs k"
  by (induction cs arbitrary: k)
    (simp_all add: explore_same_online [OF assms] split: sum.splits prod.splits)

lemma mars_online_same_online:
  assumes "same_online e e'"
  shows "mars_online e' alts s_hat0 = mars_online e alts s_hat0"
  by (simp add: mars_online_def choice_same_online [OF assms] explore_all_same_online [OF assms]
      cong: sum.case_cong prod.case_cong if_cong)

lemma run_combination_runs:
  assumes "run_combination e alts s_hat0 x0 y0 index_l index_n st = Inr st'"
  shows "\<exists>x. explore e alts s_hat0 x0 y0 (lengthScale ! index_l) (noise ! index_n) (rng st)
               = Inr (x, rng st')
           \<and> runs st' = runs st @ [(x, oracle_set e x)]"
proof -
  from assms obtain x k where
    ex: "explore e alts s_hat0 x0 y0 (lengthScale ! index_l) (noise ! index_n) (rng st) = Inr (x, k)"
    and sp: "store_performance e index_n index_l x (st\<lparr>rng := k\<rparr>) = Inr st'"
    by (auto simp add: run_combination_def split: sum.splits prod.splits)
  from sp have "rng st' = k \<and> runs st' = runs st @ [(x, oracle_set e x)]"
    by (auto simp add: store_performance_def oracle_set_def Let_def split: sum.splits)
  with ex show ?thesis by auto
qed

lemma sweep_explore_all:
  assumes "sweep e alts s_hat0 x0 y0 cs st = Inr st'"
  shows "\<exists>xs. explore_all e alts s_hat0 x0 y0 cs (rng st) = Inr xs
            \<and> runs st' = runs st @ map (\<lambda>x. (x, oracle_set e x)) xs"
  using assms
proof (induction cs arbitrary: st)
  case Nil
  then show ?case by simp
next
  case (Cons c cs)
  from Cons.prems obtain st1 where
    rc: "run_combination e alts s_hat0 x0 y0 (fst c) (snd c) st = Inr st1"
    and sw: "sweep e alts s_hat0 x0 y0 cs st1 = Inr st'"
    by (auto split: sum.splits)
  from run_combination_runs [OF rc] obtain x where
    ex: "explore e alts s_hat0 x0 y0 (lengthScale ! fst c) (noise ! snd c) (rng st) = Inr (x, rng st1)"
    and r1: "runs st1 = runs st @ [(x, oracle_set e x)]"
    by blast
  from Cons.IH [OF sw] obtain xs where
    ea: "explore_all e alts s_hat0 x0 y0 cs (rng st1) = Inr xs"
    and r': "runs st' = runs st1 @ map (\<lambda>x. (x, oracle_set e x)) xs"
    by blast
  have "explore_all e alts s_hat0 x0 y0 (c # cs) (rng st) = Inr (x # xs)"
    using ex ea by simp
  moreover have "runs st' = runs st @ map (\<lambda>x. (x, oracle_set e x)) (x # xs)"
    using r1 r' by simp
  ultimately show ?case by blast
qed

lemma explore_all_nth:
  assumes "explore_all e alts s_hat0 x0 y0 cs k = Inr xs"
  shows "length xs = length cs
       \<and> (\<forall>i < length cs. \<exists>k1 k2. explore e alts s_hat0 x0 y0 (lengthScale ! fst (cs ! i))
                                      (noise ! snd (cs ! i)) k1 = Inr (xs ! i, k2))"
  using assms
proof (induction cs arbitrary: k xs)
  case Nil
  then show ?case by simp
next
  case (Cons c cs)
  from Cons.prems obtain x k' ys where
    ex: "explore e alts s_hat0 x0 y0 (lengthScale ! fst c) (noise ! snd c) k = Inr (x, k')"
    and ea: "explore_all e alts s_hat0 x0 y0 cs k' = Inr ys" and xs: "xs = x # ys"
    by (auto split: sum.splits prod.splits)
  note ih = Cons.IH [OF ea]
  have "\<exists>k1 k2. explore e alts s_hat0 x0 y0 (lengthScale ! fst ((c # cs) ! i))
                   (noise ! snd ((c # cs) ! i)) k1 = Inr (xs ! i, k2)"
    if "i < length (c # cs)" for i
  proof (cases i)
    case 0
    with ex xs show ?thesis by auto
  next
    case (Suc j)
    with that have "j < length cs" by simp
    with ih Suc xs show ?thesis by simp
  qed
  with ih xs show ?case by simp
qed

lemma mars_runs:
  assumes "mars e alts s_hat0 junk = Inr st"
  shows "\<exists>ind k xs. choice e 0 [0..<length alts] = Inr (ind, k) \<and> ind < length coord
           \<and> explore_all e alts s_hat0 [Coordinate (fst (coord ! ind)) (snd (coord ! ind))]
                [alts ! ind] combinations k = Inr xs
           \<and> mars_online e alts s_hat0 = Inr xs
           \<and> runs st = map (\<lambda>x. (x, oracle_set e x)) xs"
proof -
  from mars_sweep [OF assms] obtain ind k x0 y0 st0 where
    c: "choice e 0 [0..<length alts] = Inr (ind, k)" and ind: "ind < length coord"
    and x0: "x0 = [Coordinate (fst (coord ! ind)) (snd (coord ! ind))]" and y0: "y0 = [alts ! ind]"
    and sw: "sweep e alts s_hat0 x0 y0 combinations st0 = Inr st"
    and st0: "rng st0 = k" "runs st0 = []"
    by force
  from sweep_explore_all [OF sw] st0 obtain xs where
    ea: "explore_all e alts s_hat0 x0 y0 combinations k = Inr xs"
    and r: "runs st = map (\<lambda>x. (x, oracle_set e x)) xs"
    by auto
  have "mars_online e alts s_hat0 = Inr xs"
    using c ind ea by (simp add: mars_online_def x0 y0)
  with c ind ea r show ?thesis
    unfolding x0 y0 by blast
qed

section \<open>Results about the safety threshold of \<^verbatim>\<open>mars.py\<close>\<close>

lemma tan_angle_positive: "0 < tan (pi / 9)"
  by (rule tan_gt_zero) simp_all

text \<open>
  C3, as stated, fails: the threshold \<open>h\<close> that \<^verbatim>\<open>mars.py\<close> hands to the constructor is not
  the slope \<open>tan(pi / 9)\<close> of the configured angle.
\<close>

theorem mars_h_is_not_the_slope: "mars_h \<noteq> tan (pi / 9)"
  using tan_angle_positive by (simp add: mars_h_def mars_step_size_def)

lemma above_mars_h: "(mars_h \<le> d) = (- tan (pi / 9) \<le> d / fst mars_step_size)"
  by (simp add: mars_h_def mars_step_size_def field_simps)

lemma entry_compute_true_safe_set:
  "entry (compute_true_safe_set e shape alts t) s a =
     (\<exists>s'. neighbor shape s a = Some s' \<and> (a = STAY \<or> t \<le> feature e alts s s'))"
  using neighbor_in_grid [of shape s a]
  by (auto simp add: compute_true_safe_set_def entry_array_of split: option.splits)

text \<open>
  C3, amended.  The threshold handed to the constructor is \<open>- tan(pi / 9) * step_size[0]\<close>
  with \<open>step_size[0] = 2\<close>: the negated slope of the angle \<open>pi / 9\<close>, scaled by the
  horizontal distance of one step, and negative.  The grid world that the constructor call
  of \<^verbatim>\<open>mars.py\<close> returns holds it as \<open>h\<close>, and a transition is considered safe exactly when
  its safety feature stays above it, that is, when the slope (the feature divided by the
  horizontal distance \<open>step_size[0]\<close>) is at least \<open>- tan(pi / 9)\<close>; there is no upper bound:
  \<^item> for the oracle (\<open>compute_true_safe_set\<close> called on the fields of the grid world, as in
    line 122), a transition other than STAY is marked exactly when it exists and the
    slope of the exact feature is at least \<open>- tan(pi / 9)\<close>;
  \<^item> for the classifier, a posterior is labelled SAFE exactly when the variance is not
    negative and the slope of the lower confidence bound is at least \<open>- tan(pi / 9)\<close>, and
    UNSAFE exactly when the variance is not negative and the slope of the upper bound is
    below \<open>- tan(pi / 9)\<close>.
\<close>

theorem mars_h_is_the_scaled_negative_slope:
  "mars_h = - tan (pi / 9) * fst mars_step_size \<and> fst mars_step_size = 2 \<and> mars_h < 0
   \<and> (\<exists>x. GridWorld_init g mars_world_shape mars_step_size mars_beta alts mars_h mars_S0
              s_hat0 mars_L = Inr x
          \<and> h x = mars_h
          \<and> (\<forall>e s a. entry (compute_true_safe_set e (world_shape x) (altitudes x) (h x)) s a
                = (\<exists>s'. neighbor mars_world_shape s a = Some s'
                       \<and> (a = STAY
                           \<or> - tan (pi / 9) \<le> feature e alts s s' / fst mars_step_size)))
          \<and> (\<forall>mean var. (classify mean var (beta x) (h x) = SAFE)
                = (0 \<le> var
                   \<and> - tan (pi / 9) \<le> (mean - mars_beta * sqrt var) / fst mars_step_size))
          \<and> (\<forall>mean var. (classify mean var (beta x) (h x) = UNSAFE)
                = (0 \<le> var
                   \<and> (mean + mars_beta * sqrt var) / fst mars_step_size < - tan (pi / 9))))
   \<and> (\<forall>I. (classify_interval I mars_h = SAFE) = (- tan (pi / 9) \<le> fst I / fst mars_step_size))"
proof -
  let ?x = "\<lparr>gp = g, world_shape = mars_world_shape, step_size = mars_step_size,
             beta = mars_beta, altitudes = alts, h = mars_h, S = mars_S0, S_hat = s_hat0,
             S_hat0 = s_hat0, G = array_of mars_world_shape (\<lambda>t. False), L = mars_L\<rparr>"
  have init: "GridWorld_init g mars_world_shape mars_step_size mars_beta alts mars_h mars_S0
                s_hat0 mars_L = Inr ?x"
    by (simp add: GridWorld_init_def mars_world_shape_def mars_step_size_def mars_beta_def
        mars_L_def)
  have neg: "mars_h < 0"
    using tan_angle_positive by (simp add: mars_h_def mars_step_size_def)
  have safe: "(classify_interval I mars_h = SAFE) = (- tan (pi / 9) \<le> fst I / fst mars_step_size)"
    for I
    by (simp add: classify_interval_def above_mars_h)
  have below: "(d < mars_h) = (d / fst mars_step_size < - tan (pi / 9))" for d
    using above_mars_h [of d] by auto
  have exact: "entry (compute_true_safe_set e (world_shape ?x) (altitudes ?x) (h ?x)) s a
      = (\<exists>s'. neighbor mars_world_shape s a = Some s'
             \<and> (a = STAY \<or> - tan (pi / 9) \<le> feature e alts s s' / fst mars_step_size))"
    for e s a
    by (simp add: entry_compute_true_safe_set above_mars_h)
  have cl: "(classify mean var (beta ?x) (h ?x) = SAFE)
      = (0 \<le> var \<and> - tan (pi / 9) \<le> (mean - mars_beta * sqrt var) / fst mars_step_size)"
    for mean var
    by (auto simp add: classify_def safe confidence_interval_def)
  have cu: "(classify mean var (beta ?x) (h ?x) = UNSAFE)
      = (0 \<le> var \<and> (mean + mars_beta * sqrt var) / fst mars_step_size < - tan (pi / 9))"
    for mean var
  proof (cases "0 \<le> var")
    case True
    then have "mean - mars_beta * sqrt var \<le> mean + mars_beta * sqrt var"
      by (simp add: mars_beta_def)
    then have "mean + mars_beta * sqrt var < mars_h \<Longrightarrow> \<not> mars_h \<le> mean - mars_beta * sqrt var"
      by arith
    with True show ?thesis
      by (auto simp add: classify_def classify_interval_def confidence_interval_def
          below [symmetric])
  next
    case False
    then show ?thesis by (simp add: classify_def)
  qed
  have "h ?x = mars_h" by simp
  with init exact cl cu have
    "\<exists>x. GridWorld_init g mars_world_shape mars_step_size mars_beta alts mars_h mars_S0
              s_hat0 mars_L = Inr x
          \<and> h x = mars_h
          \<and> (\<forall>e s a. entry (compute_true_safe_set e (world_shape x) (altitudes x) (h x)) s a
                = (\<exists>s'. neighbor mars_world_shape s a = Some s'
                       \<and> (a = STAY
                           \<or> - tan (pi / 9) \<le> feature e alts s s' / fst mars_step_size)))
          \<and> (\<forall>mean var. (classify mean var (beta x) (h x) = SAFE)
                = (0 \<le> var
                   \<and> - tan (pi / 9) \<le> (mean - mars_beta * sqrt var) / fst mars_step_size))
          \<and> (\<forall>mean var. (classify mean var (beta x) (h x) = UNSAFE)
                = (0 \<le> var
                   \<and> (mean + mars_beta * sqrt var) / fst mars_step_size < - tan (pi / 9)))"
    by (intro exI [of _ ?x] conjI allI)
  with neg safe show ?thesis
    by (simp add: mars_h_def mars_step_size_def)
qed


section \<open>STAY is always marked safe\<close>

lemma GridWorld_init_stay:
  assumes "GridWorld_init g mars_world_shape step b alts t mars_S0 s_hat0 lip = Inr x0"
  shows "stay_marked x0"
proof -
  from assms have "S x0 = mars_S0" "world_shape x0 = mars_world_shape"
    by (auto simp add: GridWorld_init_def split: if_splits)
  then show ?thesis
    by (simp add: stay_marked_def entry_mars_S0)
qed

text \<open>
  C6.  In the grid world that \<^verbatim>\<open>mars.py\<close> constructs from \<open>S0\<close>, STAY is marked in \<open>S\<close> at
  every node: in \<open>S0\<close> itself, in the grid world just constructed, and in every state
  reached from it by a sequence of operations (\<open>update_sets\<close>, \<open>target_sample\<close>,
  \<open>add_observation\<close>, \<open>set_XY\<close>).
\<close>

theorem STAY_always_marked:
  assumes "GridWorld_init g mars_world_shape mars_step_size mars_beta alts mars_h mars_S0 s_hat0 mars_L = Inr x0"
    and "run_operations e x0 ops = Inr x'"
    and "s < fst mars_world_shape * snd mars_world_shape"
  shows "entry mars_S0 s STAY \<and> entry (S x0) s STAY \<and> entry (S x') s STAY"
proof -
  have ws: "world_shape x0 = mars_world_shape"
    using assms(1) by (auto simp add: GridWorld_init_def split: if_splits)
  have m0: "stay_marked x0"
    using assms(1) by (rule GridWorld_init_stay)
  have ws': "world_shape x' = mars_world_shape"
    using run_operations_shape [OF assms(2)] ws by simp
  from run_operations_stay [OF assms(2) m0] have "stay_marked x'" .
  with m0 ws ws' assms(3) show ?thesis
    by (simp add: stay_marked_def entry_mars_S0)
qed

theorem STAY_always_marked_witness:
  "\<exists>x0 x'. GridWorld_init example_gp mars_world_shape mars_step_size mars_beta
              flat_altitudes mars_h mars_S0 mars_S0 mars_L = Inr x0
     \<and> run_operations example_env x0 [Update_sets, Add_observation 0 STAY] = Inr x'
     \<and> (0 :: nat) < fst mars_world_shape * snd mars_world_shape
     \<and> entry mars_S0 0 STAY \<and> entry (S x0) 0 STAY \<and> entry (S x') 0 STAY"
proof -
  let ?x0 = "\<lparr>gp = example_gp, world_shape = mars_world_shape, step_size = mars_step_size,
              beta = mars_beta, altitudes = flat_altitudes, h = mars_h, S = mars_S0,
              S_hat = mars_S0, S_hat0 = mars_S0,
              G = array_of mars_world_shape (\<lambda>t. False), L = mars_L\<rparr>"
  have i: "GridWorld_init example_gp mars_world_shape mars_step_size mars_beta
              flat_altitudes mars_h mars_S0 mars_S0 mars_L = Inr ?x0"
    by (rule GridWorld_init_mars)
  obtain x1 where u: "update_sets example_env ?x0 = Inr x1" and ws1: "world_shape x1 = mars_world_shape"
    by (simp add: update_sets_def Let_def seed_nodes_mars_S0)
  obtain x' where a: "add_observation example_env x1 0 STAY = Inr x'"
    by (simp add: add_observation_def ws1 neighbor_mars_origin)
  have r: "run_operations example_env ?x0 [Update_sets, Add_observation 0 STAY] = Inr x'"
    using u a by simp
  from STAY_always_marked [OF i r nodes_positive] i r nodes_positive show ?thesis
    by blast
qed

section \<open>The empty frontier\<close>

text \<open>
  C4.  \<open>target_sample\<close> fails with the "empty frontier" condition exactly when \<open>G\<close> marks
  nothing.  When, after \<open>j\<close> completed iterations of the exploration loop, \<open>update_sets\<close>
  leaves \<open>G\<close> empty, the selection of iteration \<open>j + 1\<close> fails and the loop of any length
  above \<open>j\<close> (fifty in \<^verbatim>\<open>mars.py\<close>) ends there with that condition: no further sample is
  taken.  The loop of \<^verbatim>\<open>mars.py\<close> has no test of its own on \<open>G\<close>; it stops because the
  exception leaves it.
\<close>

theorem empty_frontier_ends_the_loop:
  assumes "exploration_loop e j x = Inr xj"
    and "update_sets e xj = Inr x1"
    and "\<not> np_any (G x1)"
  shows "target_sample e x1 = Inl EmptyFrontier
         \<and> (\<forall>n > j. exploration_loop e n x = Inl EmptyFrontier)
         \<and> (\<forall>y. (target_sample e y = Inl EmptyFrontier) = (\<not> np_any (G y)))"
proof -
  have ts: "target_sample e x1 = Inl EmptyFrontier"
    using assms(3) by (simp add: target_sample_fails)
  have one: "exploration_loop e (Suc m) xj = Inl EmptyFrontier" for m
    using assms(2) ts by simp
  have "exploration_loop e n x = Inl EmptyFrontier" if "j < n" for n
  proof -
    from less_imp_Suc_add [OF that] obtain m where "n = Suc (j + m)" ..
    then have n: "n = j + Suc m" by simp
    have "exploration_loop e (j + Suc m) x = exploration_loop e (Suc m) xj"
      by (simp only: exploration_loop_add assms(1) sum.case)
    with one n show ?thesis by simp
  qed
  then have all: "\<forall>n > j. exploration_loop e n x = Inl EmptyFrontier"
    by blast
  have iff: "\<forall>y. (target_sample e y = Inl EmptyFrontier) = (\<not> np_any (G y))"
    by (simp add: target_sample_fails)
  from ts all iff show ?thesis
    by (intro conjI)
qed

theorem empty_frontier_ends_the_loop_witness:
  "\<exists>x1. exploration_loop stalled_env 0 example_world = Inr example_world
     \<and> update_sets stalled_env example_world = Inr x1
     \<and> np_any (G x1) = False
     \<and> target_sample stalled_env x1 = Inl EmptyFrontier
     \<and> exploration_loop stalled_env 50 example_world = Inl EmptyFrontier"
proof -
  have l0: "exploration_loop stalled_env 0 example_world = Inr example_world"
    by simp
  obtain x1 where u: "update_sets stalled_env example_world = Inr x1"
    and g: "G x1 = array_of mars_world_shape (\<lambda>t. False)"
    by (simp add: update_sets_example_world stalled_env_def)
  have n: "\<not> np_any (G x1)"
    by (simp add: g np_any_array_of)
  from empty_frontier_ends_the_loop [OF l0 u n]
  have t: "target_sample stalled_env x1 = Inl EmptyFrontier"
    and a: "\<forall>n > 0. exploration_loop stalled_env n example_world = Inl EmptyFrontier"
    by blast+
  from a have "(0 :: nat) < 50 \<longrightarrow> exploration_loop stalled_env 50 example_world = Inl EmptyFrontier"
    by (rule spec)
  then have "exploration_loop stalled_env 50 example_world = Inl EmptyFrontier"
    by (simp del: exploration_loop.simps)
  with l0 u n t show ?thesis by blast
qed

section \<open>The order of an iteration\<close>

text \<open>
  C7.  Iteration \<open>t + 1\<close> of the exploration loop starts from the grid world that the first
  \<open>t\<close> iterations returned, whose training data are the initial ones followed by the \<open>t\<close>
  observations of those iterations.  It recomputes the sets from that grid world
  (\<open>update_sets\<close>, which leaves the training data alone and whose result depends on the
  belief and the configuration only, not on the sets left from before), selects the sample
  from the sets just computed (\<open>target_sample\<close>), and then ingests the observation of
  that sample (\<open>add_observation\<close>), which is the state the next iteration starts from.
\<close>

theorem iteration_selects_from_current_belief:
  assumes "exploration_loop e (Suc t) x = Inr x'"
  shows "\<exists>xt x1 next_sample.
           exploration_loop e t x = Inr xt
         \<and> (\<exists>obs. length obs = t \<and> X (gp xt) = X (gp x) @ obs)
         \<and> update_sets e xt = Inr x1 \<and> gp x1 = gp xt
         \<and> S x1 = array_of (world_shape xt) (in_S e xt)
         \<and> S_hat x1 = array_of (world_shape xt) (in_S_hat e xt)
         \<and> G x1 = array_of (world_shape xt) (expanders e (gp xt) (S x1) (S_hat x1))
         \<and> (\<forall>y. same_belief xt y \<longrightarrow>
                (\<exists>y1. update_sets e y = Inr y1 \<and> S y1 = S x1 \<and> S_hat y1 = S_hat x1 \<and> G y1 = G x1))
         \<and> target_sample e x1 = Inr next_sample
         \<and> add_observation e x1 (fst next_sample) (snd next_sample) = Inr x'
         \<and> (\<exists>s'. X (gp x') = X (gp xt) @ [Edge (fst next_sample) (snd next_sample) s'])"
proof -
  from assms have "(case exploration_loop e t x of Inl er \<Rightarrow> Inl er
                    | Inr xt \<Rightarrow> exploration_loop e (Suc 0) xt) = Inr x'"
    by (simp only: exploration_loop_last [of e t x])
  then obtain xt where lt: "exploration_loop e t x = Inr xt"
    and l1: "exploration_loop e (Suc 0) xt = Inr x'"
    by (cases "exploration_loop e t x") (simp_all del: exploration_loop.simps)
  from l1 obtain x1 next_sample where
    u: "update_sets e xt = Inr x1" and ts: "target_sample e x1 = Inr next_sample"
    and ao: "add_observation e x1 (fst next_sample) (snd next_sample) = Inr x'"
    by (auto split: sum.splits)
  note f = update_sets_fields [OF u]
  from exploration_loop_training_data [OF lt]
  have d: "\<exists>obs. length obs = t \<and> X (gp xt) = X (gp x) @ obs" by blast
  from add_observation_appends [OF ao] f(1)
  have a: "\<exists>s'. X (gp x') = X (gp xt) @ [Edge (fst next_sample) (snd next_sample) s']"
    by auto
  have sb: "\<forall>y. same_belief xt y \<longrightarrow>
                (\<exists>y1. update_sets e y = Inr y1 \<and> S y1 = S x1 \<and> S_hat y1 = S_hat x1 \<and> G y1 = G x1)"
    using update_sets_same_belief [OF _ u] by blast
  from lt d u f(1,4,5,6) sb ts ao a show ?thesis
    by blast
qed

theorem iteration_selects_from_current_belief_witness:
  "\<exists>x' xt x1 next_sample.
       exploration_loop example_env (Suc (Suc 0)) example_world = Inr x'
     \<and> exploration_loop example_env (Suc 0) example_world = Inr xt
     \<and> length (X (gp xt)) = length (X (gp example_world)) + Suc 0
     \<and> update_sets example_env xt = Inr x1 \<and> gp x1 = gp xt
     \<and> S x1 = array_of (world_shape xt) (in_S example_env xt)
     \<and> target_sample example_env x1 = Inr next_sample
     \<and> add_observation example_env x1 (fst next_sample) (snd next_sample) = Inr x'"
proof -
  have "seed_nodes (S_hat0 example_world) \<noteq> []"
    by (simp add: example_world_fields seed_nodes_mars_S0)
  from example_loop [OF example_world_fields(1) this, of "Suc (Suc 0)"] obtain x' where
    run: "exploration_loop example_env (Suc (Suc 0)) example_world = Inr x'"
    by blast
  from iteration_selects_from_current_belief [OF run] obtain xt x1 next_sample obs where
    "exploration_loop example_env (Suc 0) example_world = Inr xt"
    "length obs = Suc 0" "X (gp xt) = X (gp example_world) @ obs"
    "update_sets example_env xt = Inr x1" "gp x1 = gp xt"
    "S x1 = array_of (world_shape xt) (in_S example_env xt)"
    "target_sample example_env x1 = Inr next_sample"
    "add_observation example_env x1 (fst next_sample) (snd next_sample) = Inr x'"
    by blast
  with run show ?thesis
    by (intro exI [of _ x'] exI [of _ xt] exI [of _ x1] exI [of _ next_sample]) simp
qed

section \<open>Observations are kept\<close>

text \<open>
  C5.  \<open>add_observation\<close> appends the queried edge and its measurement to the training
  data.  Over any sequence of operations without \<open>set_XY\<close>, the training data afterwards
  are the training data before, followed by the edges observed in between, in order:
  nothing present earlier is dropped.  In \<^verbatim>\<open>mars.py\<close> the only removal is the explicit
  \<open>set_XY\<close> of line 110, which drops exactly the \<open>n_samples\<close> initial rows and keeps the
  ten observations inserted before it; the training data at the end of the exploration
  are those ten observations followed by the fifty of the loop.
\<close>

theorem observations_are_kept:
  "(add_observation e x s a = Inr x1 \<longrightarrow>
      (\<exists>s'. neighbor (world_shape x) s a = Some s'
            \<and> X (gp x1) = X (gp x) @ [Edge s a s']
            \<and> Y (gp x1) = Y (gp x) @ [sensor e x s a s']))
   \<and> (run_operations e x ops = Inr x' \<and> (\<forall>op \<in> set ops. \<not> is_reset op) \<longrightarrow>
        X (gp x') = X (gp x) @ observed (world_shape x) ops
        \<and> (\<exists>vals. length vals = length (observed (world_shape x) ops)
                   \<and> Y (gp x') = Y (gp x) @ vals))
   \<and> (explore e alts s_hat0 x0 y0 len sigma_n k = Inr (xe, k')
        \<and> length x0 = n_samples \<and> length y0 = n_samples \<longrightarrow>
        (\<exists>xi xr inserted sampled.
            insert_samples e k xi = Inr (xr, k')
          \<and> X (gp xi) = x0 \<and> X (gp xr) = x0 @ inserted \<and> length inserted = 10
          \<and> X (gp (remove_samples xr)) = inserted
          \<and> exploration_loop e 50 (remove_samples xr) = Inr xe
          \<and> X (gp xe) = inserted @ sampled \<and> length sampled = 50
          \<and> length (Y (gp xe)) = 60))"
proof -
  have one: "add_observation e x s a = Inr x1 \<longrightarrow>
      (\<exists>s'. neighbor (world_shape x) s a = Some s'
            \<and> X (gp x1) = X (gp x) @ [Edge s a s']
            \<and> Y (gp x1) = Y (gp x) @ [sensor e x s a s'])"
    by (rule impI) (rule add_observation_appends)
  have many: "run_operations e x ops = Inr x' \<and> (\<forall>op \<in> set ops. \<not> is_reset op) \<longrightarrow>
        X (gp x') = X (gp x) @ observed (world_shape x) ops
        \<and> (\<exists>vals. length vals = length (observed (world_shape x) ops)
                   \<and> Y (gp x') = Y (gp x) @ vals)"
  proof (rule impI, elim conjE)
    assume "run_operations e x ops = Inr x'" "\<forall>op \<in> set ops. \<not> is_reset op"
    then show "X (gp x') = X (gp x) @ observed (world_shape x) ops
        \<and> (\<exists>vals. length vals = length (observed (world_shape x) ops)
                   \<and> Y (gp x') = Y (gp x) @ vals)"
      by (rule run_operations_data)
  qed
  have script: "explore e alts s_hat0 x0 y0 len sigma_n k = Inr (xe, k')
        \<and> length x0 = n_samples \<and> length y0 = n_samples \<longrightarrow>
        (\<exists>xi xr inserted sampled.
            insert_samples e k xi = Inr (xr, k')
          \<and> X (gp xi) = x0 \<and> X (gp xr) = x0 @ inserted \<and> length inserted = 10
          \<and> X (gp (remove_samples xr)) = inserted
          \<and> exploration_loop e 50 (remove_samples xr) = Inr xe
          \<and> X (gp xe) = inserted @ sampled \<and> length sampled = 50
          \<and> length (Y (gp xe)) = 60)"
  proof (rule impI, elim conjE)
    assume "explore e alts s_hat0 x0 y0 len sigma_n k = Inr (xe, k')"
      "length x0 = n_samples" "length y0 = n_samples"
    then show "\<exists>xi xr inserted sampled.
            insert_samples e k xi = Inr (xr, k')
          \<and> X (gp xi) = x0 \<and> X (gp xr) = x0 @ inserted \<and> length inserted = 10
          \<and> X (gp (remove_samples xr)) = inserted
          \<and> exploration_loop e 50 (remove_samples xr) = Inr xe
          \<and> X (gp xe) = inserted @ sampled \<and> length sampled = 50
          \<and> length (Y (gp xe)) = 60"
      by (rule explore_data)
  qed
  from one many script show ?thesis
    by (rule conjI [OF _ conjI])
qed

theorem observations_are_kept_witness:
  "\<exists>x1 x' xe.
       add_observation example_env example_world 0 0 = Inr x1
     \<and> X (gp x1) = X (gp example_world) @ [Edge 0 0 0]
     \<and> run_operations example_env example_world [Update_sets, Add_observation 0 0] = Inr x'
     \<and> list_all (\<lambda>op. \<not> is_reset op) [Update_sets, Add_observation 0 0]
     \<and> X (gp x') = X (gp example_world) @ [Edge 0 0 0]
     \<and> explore example_env flat_altitudes example_seed [Coordinate 0 0] [0] 10 (1 / 100) 0
           = Inr (xe, 11)
     \<and> length [Coordinate 0 0] = n_samples \<and> length [0 :: real] = n_samples
     \<and> length (X (gp xe)) = 60 \<and> length (Y (gp xe)) = 60"
proof -
  have nb: "neighbor (world_shape example_world) 0 0 = Some 0"
    using neighbor_mars_origin by (simp add: example_world_fields STAY_def)
  then obtain x1 where a1: "add_observation example_env example_world 0 0 = Inr x1"
    by (simp add: add_observation_def)
  obtain xu where u: "update_sets example_env example_world = Inr xu"
    by (simp add: update_sets_example_world)
  have "neighbor (world_shape xu) 0 0 = Some 0"
    using nb update_sets_fields(2) [OF u] by simp
  then obtain x' where a2: "add_observation example_env xu 0 0 = Inr x'"
    by (simp add: add_observation_def)
  have run: "run_operations example_env example_world [Update_sets, Add_observation 0 0] = Inr x'"
    using u a2 by simp
  have nr: "\<forall>op \<in> set [Update_sets, Add_observation 0 0]. \<not> is_reset op"
    by simp
  from example_explore [of flat_altitudes "[Coordinate 0 0]" "[0]" 10 "1 / 100" 0]
  obtain xe where ex: "explore example_env flat_altitudes example_seed [Coordinate 0 0] [0] 10
                         (1 / 100) 0 = Inr (xe, 11)"
    by auto
  have ns: "length [Coordinate 0 0] = n_samples" "length [0 :: real] = n_samples"
    by (simp_all add: n_samples_def)
  note inst = observations_are_kept [where e = example_env and x = example_world and s = 0
      and a = 0 and ?x1.0 = x1 and ops = "[Update_sets, Add_observation 0 0]" and ?x' = x'
      and alts = flat_altitudes and ?s_hat0.0 = example_seed and ?x0.0 = "[Coordinate 0 0]"
      and ?y0.0 = "[0]" and len = 10 and sigma_n = "1 / 100" and k = 0 and xe = xe and ?k' = 11]
  from inst a1 nb have r1: "X (gp x1) = X (gp example_world) @ [Edge 0 0 0]"
    by auto
  from inst run nr have r2: "X (gp x') = X (gp example_world) @ observed (world_shape example_world)
                                [Update_sets, Add_observation 0 0]"
    by blast
  from r2 nb have r2': "X (gp x') = X (gp example_world) @ [Edge 0 0 0]"
    by simp
  from inst ex ns obtain inserted sampled where
    "X (gp xe) = inserted @ sampled" "length inserted = 10" "length sampled = 50"
    "length (Y (gp xe)) = 60"
    by blast
  then have r3: "length (X (gp xe)) = 60" "length (Y (gp xe)) = 60"
    by simp_all
  from a1 r1 run r2' ex ns r3 show ?thesis
    by (intro exI [of _ x1] exI [of _ x'] exI [of _ xe]) simp
qed

section \<open>The recorded results\<close>

text \<open>
  C9.  When \<^verbatim>\<open>mars.py\<close> completes, it has run the twelve combinations in the order of the
  nested loops.  For every pair of indices \<open>index_l\<close> (lengthscale) and \<open>index_n\<close> (noise),
  let \<open>x\<close> be the grid world that \<open>explore\<close> returned for that combination: the entry
  for the pair in the list of grid worlds of the online part, the result of \<open>explore\<close>
  with that lengthscale and that noise on the initial sample of the script (its Gaussian
  process has that lengthscale and the square of that noise as noise variance); and let
  \<open>true_S_hat\<close> be the oracle's set for it.  Then \<open>size_S_hat[index_n, index_l]\<close> is the
  number of transitions marked in \<open>x.S_hat\<close>, \<open>true_S_hat_minus_S_hat[index_n, index_l]\<close>
  the number of transitions marked in \<open>true_S_hat\<close> and not in \<open>x.S_hat\<close>, and
  \<open>S_hat_minus_true_S_hat[index_n, index_l]\<close> the number marked in \<open>x.S_hat\<close> and not in
  \<open>true_S_hat\<close>.
\<close>

theorem results_are_the_counts:
  assumes "mars e alts s_hat0 junk = Inr st"
    and "index_l < length lengthScale" and "index_n < length noise"
  shows "\<exists>xs ind k k' x true_S_hat.
             mars_online e alts s_hat0 = Inr xs
           \<and> length xs = length lengthScale * length noise
           \<and> x = xs ! (index_l * length noise + index_n)
           \<and> explore e alts s_hat0 [Coordinate (fst (coord ! ind)) (snd (coord ! ind))]
                [alts ! ind] (lengthScale ! index_l) (noise ! index_n) k = Inr (x, k')
           \<and> runs st ! (index_l * length noise + index_n) = (x, true_S_hat)
           \<and> lengthscale (gp x) = lengthScale ! index_l
           \<and> noise_variance (gp x) = (noise ! index_n) ^ 2
           \<and> true_S_hat = compute_true_S_hat (world_shape x)
                 (compute_true_safe_set e (world_shape x) (altitudes x) (h x)) (initial_nodes x)
           \<and> size_S_hat st ! index_n ! index_l = int (card {t. entry (S_hat x) (fst t) (snd t)})
           \<and> true_S_hat_minus_S_hat st ! index_n ! index_l =
               int (card {t. entry true_S_hat (fst t) (snd t) \<and> \<not> entry (S_hat x) (fst t) (snd t)})
           \<and> S_hat_minus_true_S_hat st ! index_n ! index_l =
               int (card {t. entry (S_hat x) (fst t) (snd t) \<and> \<not> entry true_S_hat (fst t) (snd t)})"
proof -
  let ?i = "index_l * length noise + index_n"
  from mars_sweep [OF assms(1)] obtain x0 y0 st0 where
    sw: "sweep e alts s_hat0 x0 y0 combinations st0 = Inr st"
    and st0: "runs st0 = []" "well_shaped st0"
    by (auto simp add: well_shaped_def shaped_np_empty)
  from sweep_result [OF sw st0(2) distinct_combinations] st0(1) have
    rec: "\<forall>i < length combinations.
                recorded e st (fst (combinations ! i)) (snd (combinations ! i)) (runs st ! i)"
    by simp
  have i: "index_l < 4" "index_n < 3"
    using assms(2,3) by (simp_all add: length_parameters)
  then have lt: "index_l * 3 + index_n < length combinations"
    by (simp add: combinations_list)
  with rec nth_combinations [OF i]
  have "recorded e st index_l index_n (runs st ! (index_l * 3 + index_n))"
    by fastforce
  then have rd: "recorded e st index_l index_n (runs st ! ?i)"
    by (simp add: length_parameters)
  have i3: "?i = index_l * 3 + index_n"
    by (simp add: length_parameters)
  from mars_runs [OF assms(1)] obtain ind k xs where
    ea: "explore_all e alts s_hat0 [Coordinate (fst (coord ! ind)) (snd (coord ! ind))]
           [alts ! ind] combinations k = Inr xs"
    and online: "mars_online e alts s_hat0 = Inr xs"
    and r: "runs st = map (\<lambda>x. (x, oracle_set e x)) xs"
    by blast
  note n = explore_all_nth [OF ea]
  from n have len: "length xs = length combinations" by simp
  then have len': "length xs = length lengthScale * length noise"
    by (simp add: length_parameters combinations_list)
  from n lt obtain k1 k2 where
    "explore e alts s_hat0 [Coordinate (fst (coord ! ind)) (snd (coord ! ind))] [alts ! ind]
       (lengthScale ! fst (combinations ! (index_l * 3 + index_n)))
       (noise ! snd (combinations ! (index_l * 3 + index_n))) k1
     = Inr (xs ! (index_l * 3 + index_n), k2)"
    by blast
  with nth_combinations [OF i] have
    ex: "explore e alts s_hat0 [Coordinate (fst (coord ! ind)) (snd (coord ! ind))] [alts ! ind]
           (lengthScale ! index_l) (noise ! index_n) k1 = Inr (xs ! ?i, k2)"
    by (simp add: i3)
  from lt len r have run: "runs st ! ?i = (xs ! ?i, oracle_set e (xs ! ?i))"
    by (simp add: i3)
  from rd run have
    "cell st index_n index_l = scores (xs ! ?i) (oracle_set e (xs ! ?i))"
    and "lengthscale (gp (xs ! ?i)) = lengthScale ! index_l"
    and "noise_variance (gp (xs ! ?i)) = (noise ! index_n) ^ 2"
    by (simp_all add: recorded_def)
  with online len' ex run show ?thesis
    by (intro exI [of _ xs] exI [of _ ind] exI [of _ k1] exI [of _ k2] exI [of _ "xs ! ?i"]
        exI [of _ "oracle_set e (xs ! ?i)"])
      (simp add: cell_def scores_def oracle_set_def)
qed

theorem results_are_the_counts_witness:
  "\<exists>st xs x true_S_hat.
       mars example_env flat_altitudes example_seed (\<lambda>i j. 0) = Inr st
     \<and> Suc 0 < length lengthScale \<and> (2 :: nat) < length noise
     \<and> mars_online example_env flat_altitudes example_seed = Inr xs
     \<and> length xs = 12
     \<and> x = xs ! 5
     \<and> lengthscale (gp x) = 11
     \<and> true_S_hat = compute_true_S_hat (world_shape x)
           (compute_true_safe_set example_env (world_shape x) (altitudes x) (h x)) (initial_nodes x)
     \<and> size_S_hat st ! 2 ! Suc 0 = int (card {t. entry (S_hat x) (fst t) (snd t)})
     \<and> true_S_hat_minus_S_hat st ! 2 ! Suc 0 =
         int (card {t. entry true_S_hat (fst t) (snd t) \<and> \<not> entry (S_hat x) (fst t) (snd t)})
     \<and> S_hat_minus_true_S_hat st ! 2 ! Suc 0 =
         int (card {t. entry (S_hat x) (fst t) (snd t) \<and> \<not> entry true_S_hat (fst t) (snd t)})"
proof -
  from example_mars [of "\<lambda>i j. 0"] obtain st where
    run: "mars example_env flat_altitudes example_seed (\<lambda>i j. 0) = Inr st" by blast
  have i: "Suc 0 < length lengthScale" "(2 :: nat) < length noise"
    by (simp_all add: length_parameters)
  have l: "lengthScale ! Suc 0 = 11"
    by (simp add: lengthScale_def linspace_def upt_0_4)
  from results_are_the_counts [OF run i] obtain xs x true_S_hat where
    online: "mars_online example_env flat_altitudes example_seed = Inr xs"
    and len: "length xs = length lengthScale * length noise"
    and x: "x = xs ! (Suc 0 * length noise + 2)"
    and ls: "lengthscale (gp x) = lengthScale ! Suc 0"
    and t: "true_S_hat = compute_true_S_hat (world_shape x)
           (compute_true_safe_set example_env (world_shape x) (altitudes x) (h x)) (initial_nodes x)"
    and c1: "size_S_hat st ! 2 ! Suc 0 = int (card {t. entry (S_hat x) (fst t) (snd t)})"
    and c2: "true_S_hat_minus_S_hat st ! 2 ! Suc 0 =
       int (card {t. entry true_S_hat (fst t) (snd t) \<and> \<not> entry (S_hat x) (fst t) (snd t)})"
    and c3: "S_hat_minus_true_S_hat st ! 2 ! Suc 0 =
       int (card {t. entry (S_hat x) (fst t) (snd t) \<and> \<not> entry true_S_hat (fst t) (snd t)})"
    by blast
  from len have len': "length xs = 12"
    by (simp add: length_parameters)
  from x have x': "x = xs ! 5"
    by (simp add: length_parameters)
  from ls l have ls': "lengthscale (gp x) = 11" by simp
  from run i online len' x' ls' t c1 c2 c3 show ?thesis
    by (intro exI [of _ st] exI [of _ xs] exI [of _ x] exI [of _ true_S_hat] conjI)
qed

section \<open>The oracle does not influence the online algorithm\<close>

text \<open>
  C8.  When \<^verbatim>\<open>mars.py\<close> completes, the grid worlds its combinations ended with (with their
  sets \<open>S\<close>, \<open>S_hat\<close> and \<open>G\<close>) are exactly those returned by the script without the
  oracle and without the arrays of results, and they stay the same under every environment
  that differs only in what the oracle reads (the exact feature).  The oracle's set stored
  with each grid world is the one computed from that final grid world: the oracle is called
  after the exploration loop, on its result.
\<close>

theorem oracle_does_not_influence:
  assumes "mars e alts s_hat0 junk = Inr st"
  shows "mars_online e alts s_hat0 = Inr (map fst (runs st))
       \<and> (\<forall>e'. same_online e e' \<longrightarrow> mars_online e' alts s_hat0 = Inr (map fst (runs st)))
       \<and> map snd (runs st) = map (oracle_set e) (map fst (runs st))"
proof -
  from mars_sweep [OF assms] obtain ind k x0 y0 st0 where
    c: "choice e 0 [0..<length alts] = Inr (ind, k)" and ind: "ind < length coord"
    and x0: "x0 = [Coordinate (fst (coord ! ind)) (snd (coord ! ind))]" and y0: "y0 = [alts ! ind]"
    and sw: "sweep e alts s_hat0 x0 y0 combinations st0 = Inr st"
    and st0: "rng st0 = k" "runs st0 = []"
    by force
  from sweep_explore_all [OF sw] st0 obtain xs where
    ea: "explore_all e alts s_hat0 x0 y0 combinations k = Inr xs"
    and r: "runs st = map (\<lambda>x. (x, oracle_set e x)) xs"
    by auto
  have fs: "map fst (runs st) = xs" and sn: "map snd (runs st) = map (oracle_set e) xs"
    by (simp_all add: r comp_def)
  have online: "mars_online e alts s_hat0 = Inr (map fst (runs st))"
    using c ind ea by (simp add: mars_online_def x0 y0 fs)
  then have "\<forall>e'. same_online e e' \<longrightarrow> mars_online e' alts s_hat0 = Inr (map fst (runs st))"
    by (simp add: mars_online_same_online)
  with online sn fs show ?thesis by simp
qed

theorem oracle_does_not_influence_witness:
  "\<exists>st. mars example_env flat_altitudes example_seed (\<lambda>i j. 0) = Inr st
     \<and> mars_online example_env flat_altitudes example_seed = Inr (map fst (runs st))
     \<and> same_online example_env (example_env\<lparr>feature := (\<lambda>alts s s'. 1)\<rparr>)
     \<and> mars_online (example_env\<lparr>feature := (\<lambda>alts s s'. 1)\<rparr>) flat_altitudes example_seed
           = Inr (map fst (runs st))"
proof -
  from example_mars [of "\<lambda>i j. 0"] obtain st where
    run: "mars example_env flat_altitudes example_seed (\<lambda>i j. 0) = Inr st" by blast
  have so: "same_online example_env (example_env\<lparr>feature := (\<lambda>alts s s'. 1)\<rparr>)"
    by (simp add: same_online_def)
  note inst = oracle_does_not_influence [OF run]
  from inst have a: "mars_online example_env flat_altitudes example_seed = Inr (map fst (runs st))"
    by (rule conjunct1)
  from inst so have b: "mars_online (example_env\<lparr>feature := (\<lambda>alts s s'. 1)\<rparr>) flat_altitudes
                          example_seed = Inr (map fst (runs st))"
    by blast
  from run a so b show ?thesis by blast
qed

end
